theory Spec2Isabelle
  imports Main "HOL-Library.Sublist" "HOL-Library.Multiset"
begin

section \<open>Data model\<close>

text \<open>
  Python strings are sequences of Unicode code points; a code point is a natural number
  below \<open>0x110000\<close>. Bytes (downloaded payloads, file contents) are 8-bit characters.
\<close>

type_synonym pystr = "nat list"

definition str :: "string \<Rightarrow> pystr" where
  "str s = map of_char s"

text \<open>
  One element of \<open>photo['sizes']\<close>: the keys \<open>width\<close>, \<open>height\<close>, \<open>url\<close> and \<open>type\<close>.
  Python integers are unbounded.
\<close>

record size_variant =
  width :: int
  height :: int
  url :: pystr
  type :: pystr

text \<open>
  One element of the fetched list: \<open>photo['sizes']\<close>, \<open>photo['likes']['count']\<close> and
  \<open>photo['date']\<close> (epoch seconds).
\<close>

record photo =
  sizes :: "size_variant list"
  likes_count :: int
  date :: int

text \<open>The exceptions the program can end with, named after what raises them.\<close>

datatype error =
    ConnectionError        \<comment> \<open>the transport failed: no response was received\<close>
  | HTTPError nat          \<comment> \<open>\<open>raise_for_status\<close> on a 4xx or 5xx status\<close>
  | JSONDecodeError        \<comment> \<open>\<open>response.json()\<close> on a body that is not JSON\<close>
  | AttributeError         \<comment> \<open>\<open>.get\<close> on a value that is not a dict\<close>
  | InvalidURL             \<comment> \<open>the transport library rejects the URL: nothing is sent\<close>
  | MaxEmptySequence       \<comment> \<open>ValueError: \<open>max()\<close> of an empty sequence\<close>
  | YearOutOfRange         \<comment> \<open>ValueError: \<open>fromtimestamp\<close> outside the years 1..9999\<close>
  | OSError                \<comment> \<open>a local file operation failed\<close>

section \<open>The maximal size variant\<close>

definition area :: "size_variant \<Rightarrow> int" where
  "area x = width x * height x"

text \<open>
  Python's \<open>max(iterable, key=f)\<close>: the first item is the candidate, and a later item
  replaces it only when its key is strictly greater.
\<close>

primrec max_key :: "('a \<Rightarrow> int) \<Rightarrow> 'a \<Rightarrow> 'a list \<Rightarrow> 'a" where
  "max_key f best [] = best"
| "max_key f best (x # xs) = (if f x > f best then max_key f x xs else max_key f best xs)"

definition py_max :: "('a \<Rightarrow> int) \<Rightarrow> 'a list \<Rightarrow> error + 'a" where
  "py_max f xs = (case xs of [] \<Rightarrow> Inl MaxEmptySequence | x # rest \<Rightarrow> Inr (max_key f x rest))"

definition get_max_size_photo :: "photo \<Rightarrow> error + size_variant" where
  "get_max_size_photo p = py_max area (sizes p)"

text \<open>
  The maximal width*height resolution of a record, as the specification words it: the
  greatest area among the record's variants.
\<close>

definition max_resolution :: "photo \<Rightarrow> int" where
  "max_resolution p = Max (area ` set (sizes p))"

section \<open>JSON values and the transport\<close>

text \<open>
  What \<open>response.json()\<close> returns. A dict is kept as its items in document order; when a
  key occurs twice the later occurrence is the one a lookup finds. Numbers are integers:
  nothing in the program reads a fraction.
\<close>

datatype json =
    JNull
  | JBool bool
  | JInt int
  | JStr pystr
  | JArr "json list"
  | JObj "(pystr \<times> json) list"

definition dict_get :: "(pystr \<times> json) list \<Rightarrow> pystr \<Rightarrow> json option" where
  "dict_get kvs k = map_of (rev kvs) k"

text \<open>\<open>d.get(key, default)\<close>; only a dict has the method.\<close>

definition py_get :: "json \<Rightarrow> pystr \<Rightarrow> json \<Rightarrow> error + json" where
  "py_get j k dflt =
     (case j of
        JObj kvs \<Rightarrow> Inr (case dict_get kvs k of None \<Rightarrow> dflt | Some v \<Rightarrow> v)
      | _ \<Rightarrow> Inl AttributeError)"

text \<open>
  A received response: the status code, the body bytes, and the body read as JSON
  (\<open>None\<close> when the body is not JSON).
\<close>

record response =
  status_code :: nat
  content :: string
  json_body :: "json option"

definition raise_for_status :: "response \<Rightarrow> error + unit" where
  "raise_for_status r =
     (if 400 \<le> status_code r \<and> status_code r < 600 then Inl (HTTPError (status_code r))
      else Inr ())"

definition response_json :: "response \<Rightarrow> error + json" where
  "response_json r = (case json_body r of None \<Rightarrow> Inl JSONDecodeError | Some j \<Rightarrow> Inr j)"

text \<open>
  A request handed to the transport library: \<open>requests.get(url, headers=..., params=...)\<close>
  or \<open>requests.put(url, files={'file': f})\<close> with the bytes read from \<open>f\<close>.
\<close>

datatype request =
    GET pystr "(pystr \<times> pystr) list" "(pystr \<times> pystr) list"
  | PUT pystr string

text \<open>
  The transport library and the remote services behind it. The library prepares a request
  before it sends anything and raises when it cannot use the URL (no scheme, a scheme
  other than http or https, no host): \<open>usable\<close> is that check, a function of the URL
  alone. What the services answer is a function of the requests sent so far and the
  present request: a response, or \<open>None\<close> when the transport fails. The world of a run is
  the sequence of requests sent and the local files.
\<close>

record net =
  usable :: "pystr \<Rightarrow> bool"
  answer :: "request list \<Rightarrow> request \<Rightarrow> response option"

record world =
  trace :: "request list"
  files :: "pystr \<rightharpoonup> string"

type_synonym 'a io = "world \<Rightarrow> (error + 'a) \<times> world"

definition io_bind :: "'a io \<Rightarrow> ('a \<Rightarrow> 'b io) \<Rightarrow> 'b io" where
  "io_bind m f w = (case m w of (Inl e, w') \<Rightarrow> (Inl e, w') | (Inr a, w') \<Rightarrow> f a w')"

definition io_return :: "'a \<Rightarrow> 'a io" where
  "io_return a w = (Inr a, w)"

definition lift :: "error + 'a \<Rightarrow> 'a io" where
  "lift r w = (r, w)"

definition send :: "net \<Rightarrow> request \<Rightarrow> response io" where
  "send nt rq w =
     (case answer nt (trace w) rq of None \<Rightarrow> Inl ConnectionError | Some r \<Rightarrow> Inr r,
      w\<lparr>trace := trace w @ [rq]\<rparr>)"

text \<open>
  \<open>requests.get(url)\<close> and \<open>requests.put(href, files=...)\<close> with a URL that comes from a
  service's answer: a URL the library cannot use is refused before anything is sent. A
  URL that is not a string (\<open>None\<close> when the key was absent) is turned into text without
  a scheme and refused as well.
\<close>

definition requests_get :: "net \<Rightarrow> pystr \<Rightarrow> response io" where
  "requests_get nt u = (if usable nt u then send nt (GET u [] []) else lift (Inl InvalidURL))"

definition requests_put :: "net \<Rightarrow> json \<Rightarrow> string \<Rightarrow> response io" where
  "requests_put nt href payload =
     (case href of
        JStr u \<Rightarrow> if usable nt u then send nt (PUT u payload) else lift (Inl InvalidURL)
      | _ \<Rightarrow> lift (Inl InvalidURL))"

text \<open>Local files: reading or removing a file that does not exist fails.\<close>

definition read_file :: "pystr \<Rightarrow> string io" where
  "read_file name w = (case files w name of None \<Rightarrow> (Inl OSError, w) | Some d \<Rightarrow> (Inr d, w))"

definition write_file :: "pystr \<Rightarrow> string \<Rightarrow> unit io" where
  "write_file name d w = (Inr (), w\<lparr>files := (files w)(name \<mapsto> d)\<rparr>)"

definition os_remove :: "pystr \<Rightarrow> unit io" where
  "os_remove name w =
     (case files w name of
        None \<Rightarrow> (Inl OSError, w)
      | Some d \<Rightarrow> (Inr (), w\<lparr>files := (files w)(name := None)\<rparr>))"

section \<open>VK.get_photos\<close>

text \<open>
  The addresses of the two service methods are constants of the program, well-formed
  https URLs: the library sends these requests.
\<close>

definition vk_request :: "pystr \<Rightarrow> pystr \<Rightarrow> request" where
  "vk_request access_token user_id =
     GET (str ''https://api.vk.com/method/photos.get'') []
       [(str ''owner_id'', user_id), (str ''album_id'', str ''profile''),
        (str ''extended'', str ''1''), (str ''access_token'', access_token),
        (str ''v'', str ''5.131'')]"

definition get_photos :: "net \<Rightarrow> pystr \<Rightarrow> pystr \<Rightarrow> json io" where
  "get_photos nt access_token user_id =
     io_bind (send nt (vk_request access_token user_id)) (\<lambda>response.
     io_bind (lift (raise_for_status response)) (\<lambda>_.
     io_bind (lift (response_json response)) (\<lambda>j.
     io_bind (lift (py_get j (str ''response'') (JObj []))) (\<lambda>r.
     lift (py_get r (str ''items'') (JArr []))))))"

section \<open>YandexDisk\<close>

definition upload_link_request :: "pystr \<Rightarrow> pystr \<Rightarrow> request" where
  "upload_link_request token file_path =
     GET (str ''https://cloud-api.yandex.net/v1/disk/resources/upload'')
       [(str ''Authorization'', str ''OAuth '' @ token)]
       [(str ''path'', file_path), (str ''overwrite'', str ''true'')]"

text \<open>\<open>.get('href')\<close> has no default: an absent key gives \<open>None\<close>, here \<open>JNull\<close>.\<close>

definition get_upload_link :: "net \<Rightarrow> pystr \<Rightarrow> pystr \<Rightarrow> json io" where
  "get_upload_link nt token file_path =
     io_bind (send nt (upload_link_request token file_path)) (\<lambda>response.
     io_bind (lift (raise_for_status response)) (\<lambda>_.
     io_bind (lift (response_json response)) (\<lambda>j.
     lift (py_get j (str ''href'') JNull))))"

text \<open>
  The file is opened once and handed to both \<open>requests.put\<close> calls. The first call reads
  it to its end, so the second call finds nothing left to read and sends an empty file
  part. Only the status of the second response is checked.
\<close>

definition upload_file :: "net \<Rightarrow> pystr \<Rightarrow> pystr \<Rightarrow> pystr \<Rightarrow> unit io" where
  "upload_file nt token file_path file_name =
     io_bind (get_upload_link nt token (str ''vk_photos/'' @ file_name)) (\<lambda>href.
     io_bind (read_file file_path) (\<lambda>payload.
     io_bind (requests_put nt href payload) (\<lambda>_.
     io_bind (requests_put nt href []) (\<lambda>response.
     lift (raise_for_status response)))))"

section \<open>The file name\<close>

text \<open>Decimal text of an integer, as \<open>str(n)\<close> and an f-string give it.\<close>

definition digit_char :: "nat \<Rightarrow> char" where
  "digit_char d = ''0123456789'' ! d"

fun digits :: "nat \<Rightarrow> string" where
  "digits n = (if n < 10 then [digit_char n] else digits (n div 10) @ [digit_char (n mod 10)])"

declare digits.simps [simp del]

definition show_int :: "int \<Rightarrow> string" where
  "show_int i = (if i < 0 then CHR ''-'' # digits (nat (- i)) else digits (nat i))"

text \<open>
  The proleptic Gregorian calendar of \<open>datetime\<close>: day 1 is 0001-01-01. The conversion
  from a day number to year, month and day follows the library's \<open>_ord2ymd\<close>.
\<close>

definition is_leap :: "int \<Rightarrow> bool" where
  "is_leap y = (y mod 4 = 0 \<and> (y mod 100 \<noteq> 0 \<or> y mod 400 = 0))"

definition DAYS_IN_MONTH :: "int \<Rightarrow> int" where
  "DAYS_IN_MONTH m =
     (if m = 2 then 28 else if m = 4 \<or> m = 6 \<or> m = 9 \<or> m = 11 then 30 else 31)"

definition DAYS_BEFORE_MONTH :: "int \<Rightarrow> int" where
  "DAYS_BEFORE_MONTH m =
     (if m = 1 then 0 else if m = 2 then 31 else if m = 3 then 59 else if m = 4 then 90
      else if m = 5 then 120 else if m = 6 then 151 else if m = 7 then 181
      else if m = 8 then 212 else if m = 9 then 243 else if m = 10 then 273
      else if m = 11 then 304 else 334)"

definition days_in_month :: "int \<Rightarrow> int \<Rightarrow> int" where
  "days_in_month y m = (if m = 2 \<and> is_leap y then 29 else DAYS_IN_MONTH m)"

definition days_before_month :: "int \<Rightarrow> int \<Rightarrow> int" where
  "days_before_month y m = DAYS_BEFORE_MONTH m + (if m > 2 \<and> is_leap y then 1 else 0)"

definition days_before_year :: "int \<Rightarrow> int" where
  "days_before_year year = (let y = year - 1 in y * 365 + y div 4 - y div 100 + y div 400)"

definition ymd2ord :: "int \<Rightarrow> int \<Rightarrow> int \<Rightarrow> int" where
  "ymd2ord y m d = days_before_year y + days_before_month y m + d"

definition ord2ymd :: "int \<Rightarrow> int \<times> int \<times> int" where
  "ord2ymd ordinal =
     (let n = ordinal - 1;
          n400 = n div 146097; n = n mod 146097;
          n100 = n div 36524; n = n mod 36524;
          n4 = n div 1461; n = n mod 1461;
          n1 = n div 365; n = n mod 365;
          year = n400 * 400 + 1 + n100 * 100 + n4 * 4 + n1
      in if n1 = 4 \<or> n100 = 4 then (year - 1, 12, 31)
         else
           let leapyear = (n1 = 3 \<and> (n4 \<noteq> 24 \<or> n100 = 3));
               month = (n + 50) div 32;
               preceding = DAYS_BEFORE_MONTH month + (if month > 2 \<and> leapyear then 1 else 0)
           in if preceding > n
              then
                let month = month - 1;
                    preceding = preceding
                      - (DAYS_IN_MONTH month + (if month = 2 \<and> leapyear then 1 else 0))
                in (year, month, n - preceding + 1)
              else (year, month, n - preceding + 1))"

text \<open>
  \<open>datetime.fromtimestamp(ts, timezone.utc)\<close>: the calendar day that holds second \<open>ts\<close> of
  the epoch (1970-01-01 is day 719163); it raises outside the years 1 to 9999.
\<close>

definition fromtimestamp :: "int \<Rightarrow> error + int \<times> int \<times> int" where
  "fromtimestamp ts =
     (case ord2ymd (ts div 86400 + 719163) of
        (y, m, d) \<Rightarrow> if y < 1 \<or> 9999 < y then Inl YearOutOfRange else Inr (y, m, d))"

definition pad2 :: "int \<Rightarrow> string" where
  "pad2 n = (if n < 10 then CHR ''0'' # show_int n else show_int n)"

text \<open>
  \<open>strftime('%Y-%m-%d')\<close>: month and day are two digits; the year is printed by the C
  library as a plain decimal number, four digits from the year 1000 on.
\<close>

definition strftime :: "int \<times> int \<times> int \<Rightarrow> string" where
  "strftime ymd = (case ymd of (y, m, d) \<Rightarrow> show_int y @ ''-'' @ pad2 m @ ''-'' @ pad2 d)"

definition photo_file_name :: "photo \<Rightarrow> error + pystr" where
  "photo_file_name p =
     (case fromtimestamp (date p) of
        Inl e \<Rightarrow> Inl e
      | Inr ymd \<Rightarrow> Inr (str (show_int (likes_count p) @ ''_'' @ strftime ymd @ ''.jpg'')))"

section \<open>The manifest and its JSON text\<close>

text \<open>One element of \<open>photos_info\<close>: the dict with the keys \<open>file_name\<close> and \<open>size\<close>.\<close>

record entry =
  file_name :: pystr
  size_label :: pystr

definition backslash :: char where
  "backslash = CHR 0x5C"

definition dquote :: char where
  "dquote = CHR 0x22"

definition hex_digit :: "nat \<Rightarrow> char" where
  "hex_digit d = ''0123456789abcdef'' ! d"

definition hex4 :: "nat \<Rightarrow> string" where
  "hex4 n = [hex_digit (n div 4096 mod 16), hex_digit (n div 256 mod 16),
             hex_digit (n div 16 mod 16), hex_digit (n mod 16)]"

definition u_escape :: "nat \<Rightarrow> string" where
  "u_escape n = backslash # CHR ''u'' # hex4 n"

text \<open>
  The encoder of \<open>json.dump\<close> with its default \<open>ensure_ascii\<close>: the quote, the backslash
  and five control characters have short escapes, the other printable ASCII characters
  stand for themselves, every other code point is written \<open>\uXXXX\<close>, above \<open>0xFFFF\<close> as
  a surrogate pair.
\<close>

definition encode_char :: "nat \<Rightarrow> string" where
  "encode_char c =
     (if c = 0x22 then [backslash, dquote]
      else if c = 0x5C then [backslash, backslash]
      else if c = 0x0A then [backslash, CHR ''n'']
      else if c = 0x0D then [backslash, CHR ''r'']
      else if c = 0x09 then [backslash, CHR ''t'']
      else if c = 0x08 then [backslash, CHR ''b'']
      else if c = 0x0C then [backslash, CHR ''f'']
      else if 0x20 \<le> c \<and> c \<le> 0x7E then [char_of c]
      else if c < 0x10000 then u_escape c
      else u_escape (0xD800 + (c - 0x10000) div 1024 mod 1024)
           @ u_escape (0xDC00 + (c - 0x10000) mod 1024))"

definition encode_basestring_ascii :: "pystr \<Rightarrow> string" where
  "encode_basestring_ascii s = dquote # concat (map encode_char s) @ [dquote]"

definition newline_indent :: "nat \<Rightarrow> string" where
  "newline_indent level = CHR 0x0A # replicate (4 * level) CHR '' ''"

fun join :: "string \<Rightarrow> string list \<Rightarrow> string" where
  "join sep [] = []"
| "join sep [x] = x"
| "join sep (x # y # ys) = x @ sep @ join sep (y # ys)"

text \<open>
  \<open>json.dumps(obj, indent=4)\<close> at a nesting level: an empty list or dict is written
  closed, the items of a non-empty one each on a line of their own, indented four spaces
  more than the bracket that closes it.
\<close>

fun dumps :: "nat \<Rightarrow> json \<Rightarrow> string" where
  "dumps level JNull = ''null''"
| "dumps level (JBool b) = (if b then ''true'' else ''false'')"
| "dumps level (JInt i) = show_int i"
| "dumps level (JStr s) = encode_basestring_ascii s"
| "dumps level (JArr xs) =
     (if xs = [] then ''[]''
      else ''['' @ newline_indent (Suc level)
           @ join ('','' @ newline_indent (Suc level)) (map (dumps (Suc level)) xs)
           @ newline_indent level @ '']'')"
| "dumps level (JObj kvs) =
     (if kvs = [] then ''{}''
      else ''{'' @ newline_indent (Suc level)
           @ join ('','' @ newline_indent (Suc level))
               (map (\<lambda>kv. encode_basestring_ascii (fst kv) @ '': '' @ dumps (Suc level) (snd kv)) kvs)
           @ newline_indent level @ ''}'')"

definition entry_json :: "entry \<Rightarrow> json" where
  "entry_json e = JObj [(str ''file_name'', JStr (file_name e)), (str ''size'', JStr (size_label e))]"

definition manifest_name :: pystr where
  "manifest_name = str ''photos_info.json''"

definition save_photos_info :: "entry list \<Rightarrow> pystr \<Rightarrow> unit io" where
  "save_photos_info photos_info name =
     write_file name (dumps 0 (JArr (map entry_json photos_info)))"

section \<open>PhotoBackup\<close>

text \<open>One pass of the loop of \<open>download_and_upload_photos\<close>.\<close>

definition process_photo :: "net \<Rightarrow> pystr \<Rightarrow> photo \<Rightarrow> entry list \<Rightarrow> (entry list) io" where
  "process_photo nt token p photos_info =
     io_bind (lift (get_max_size_photo p)) (\<lambda>max_size.
     io_bind (lift (photo_file_name p)) (\<lambda>name.
     io_bind (requests_get nt (url max_size)) (\<lambda>response.
     io_bind (lift (raise_for_status response)) (\<lambda>_.
     io_bind (write_file name (content response)) (\<lambda>_.
     io_bind (upload_file nt token name name) (\<lambda>_.
     io_bind (os_remove name) (\<lambda>_.
     io_return (photos_info @ [\<lparr>file_name = name, size_label = type max_size\<rparr>]))))))))"

primrec download_loop :: "net \<Rightarrow> pystr \<Rightarrow> photo list \<Rightarrow> entry list \<Rightarrow> (entry list) io" where
  "download_loop nt token [] photos_info = io_return photos_info"
| "download_loop nt token (p # ps) photos_info =
     io_bind (process_photo nt token p photos_info) (download_loop nt token ps)"

definition download_and_upload_photos :: "net \<Rightarrow> pystr \<Rightarrow> photo list \<Rightarrow> nat \<Rightarrow> (entry list) io" where
  "download_and_upload_photos nt token photos n = download_loop nt token (take n photos) []"

text \<open>
  The list comprehension of \<open>run\<close>: each photo with the width of its maximal variant times
  the height of its maximal variant, the maximal variant being computed twice.
\<close>

primrec photos_with_sizes :: "photo list \<Rightarrow> error + (photo \<times> int) list" where
  "photos_with_sizes [] = Inr []"
| "photos_with_sizes (p # ps) =
     (case get_max_size_photo p of
        Inl e \<Rightarrow> Inl e
      | Inr a \<Rightarrow>
         (case get_max_size_photo p of
            Inl e \<Rightarrow> Inl e
          | Inr b \<Rightarrow>
             (case photos_with_sizes ps of
                Inl e \<Rightarrow> Inl e
              | Inr rest \<Rightarrow> Inr ((p, width a * height b) # rest))))"

text \<open>
  \<open>list.sort(key=f, reverse=True)\<close>: descending by key, and stable: items with equal keys
  keep the order they had.
\<close>

primrec insert_desc :: "('a \<Rightarrow> int) \<Rightarrow> 'a \<Rightarrow> 'a list \<Rightarrow> 'a list" where
  "insert_desc f x [] = [x]"
| "insert_desc f x (y # ys) = (if f y \<le> f x then x # y # ys else y # insert_desc f x ys)"

primrec sort_desc :: "('a \<Rightarrow> int) \<Rightarrow> 'a list \<Rightarrow> 'a list" where
  "sort_desc f [] = []"
| "sort_desc f (x # xs) = insert_desc f x (sort_desc f xs)"

text \<open>Lines 142 to 148 of \<open>run\<close>: rank the photos and keep the first five.\<close>

definition top_photos :: "photo list \<Rightarrow> error + photo list" where
  "top_photos photos =
     (case photos_with_sizes photos of
        Inl e \<Rightarrow> Inl e
      | Inr pws \<Rightarrow> Inr (map fst (take 5 (sort_desc snd pws))))"

text \<open>Everything \<open>run\<close> does once the photos are fetched.\<close>

definition backup :: "net \<Rightarrow> pystr \<Rightarrow> photo list \<Rightarrow> unit io" where
  "backup nt yandex_token photos =
     io_bind (lift (top_photos photos)) (\<lambda>top.
     io_bind (download_and_upload_photos nt yandex_token top 5) (\<lambda>photos_info.
     save_photos_info photos_info manifest_name))"

text \<open>
  \<open>run\<close>. The backup is constructed with its photo source \<open>vk\<close>; all that \<open>run\<close> asks of
  it is \<open>vk.get_photos(user_id)\<close>, whose result it reads as photo records. The photo
  source is therefore an argument here: an action that yields the fetched photo records.
  Items that lack a member the program reads, or hold it with another type, are no photo
  records; what the program does with them is not modelled.
\<close>

definition run :: "(pystr \<Rightarrow> (photo list) io) \<Rightarrow> net \<Rightarrow> pystr \<Rightarrow> pystr \<Rightarrow> unit io" where
  "run vk_get_photos nt yandex_token user_id =
     io_bind (vk_get_photos user_id) (\<lambda>photos.
     backup nt yandex_token photos)"

section \<open>The error taxonomy of the specification\<close>

text \<open>
  Modelled from the spec: the program declares no error classes of its own; section 7 of
  the specification sorts the failures into RemoteServiceError (any non-success transport
  or API response from either remote service) and LocalIOError (a failed local file
  operation). Here the first class holds the errors that arise from what a remote
  service answered or failed to answer: no response, a 4xx or 5xx status, a body that is
  not JSON, a JSON body that is not an object, and a destination reference the transport
  cannot use.
\<close>

definition remote_service_error :: "error \<Rightarrow> bool" where
  "remote_service_error e =
     (case e of
        ConnectionError \<Rightarrow> True
      | HTTPError n \<Rightarrow> True
      | JSONDecodeError \<Rightarrow> True
      | AttributeError \<Rightarrow> True
      | InvalidURL \<Rightarrow> True
      | _ \<Rightarrow> False)"

text \<open>
  The outcome of the destination request leaves the upload without a write destination:
  the transport failed, the status is a 4xx or 5xx, the body is not JSON or not a JSON
  object, or the object has no string under \<open>href\<close>.
\<close>

definition has_href :: "json \<Rightarrow> bool" where
  "has_href j =
     (case j of
        JObj kvs \<Rightarrow> (case dict_get kvs (str ''href'') of Some (JStr u) \<Rightarrow> True | _ \<Rightarrow> False)
      | _ \<Rightarrow> False)"

definition no_destination :: "response option \<Rightarrow> bool" where
  "no_destination reply =
     (case reply of
        None \<Rightarrow> True
      | Some r \<Rightarrow>
          (400 \<le> status_code r \<and> status_code r < 600)
          \<or> (case json_body r of None \<Rightarrow> True | Some j \<Rightarrow> \<not> has_href j))"

text \<open>
  The answers on which \<open>get_photos\<close> raises: no response, a 4xx or 5xx status, a body
  that is not JSON, a JSON body that is not an object, or a \<open>response\<close> member that is
  not an object.
\<close>

definition fetch_fails :: "response option \<Rightarrow> bool" where
  "fetch_fails reply =
     (case reply of
        None \<Rightarrow> True
      | Some r \<Rightarrow>
          (400 \<le> status_code r \<and> status_code r < 600)
          \<or> (case json_body r of
                None \<Rightarrow> True
              | Some (JObj body) \<Rightarrow>
                  (case dict_get body (str ''response'') of
                     None \<Rightarrow> False
                   | Some (JObj resp) \<Rightarrow> False
                   | Some _ \<Rightarrow> True)
              | Some _ \<Rightarrow> True))"

section \<open>Reading JSON text back\<close>

text \<open>
  The program has no reader for the manifest; reading it back is \<open>json.load\<close>. The
  reader below follows the decoder of the \<open>json\<close> module: the scanner for a value, the
  array and object loops and the string scanner with its escapes. The text is a sequence
  of 8-bit characters, which covers everything the writer produces. A number with a
  fraction or an exponent is a float, for which the values above have no constructor;
  the reader gives no result for it, as for text that is not JSON.
\<close>

definition is_high_surrogate :: "nat \<Rightarrow> bool" where
  "is_high_surrogate c = (0xD800 \<le> c \<and> c \<le> 0xDBFF)"

definition is_low_surrogate :: "nat \<Rightarrow> bool" where
  "is_low_surrogate c = (0xDC00 \<le> c \<and> c \<le> 0xDFFF)"

definition join_surrogates :: "nat \<Rightarrow> nat \<Rightarrow> nat" where
  "join_surrogates hi lo = 0x10000 + (hi - 0xD800) * 1024 + (lo - 0xDC00)"

definition is_ws :: "char \<Rightarrow> bool" where
  "is_ws c = (c = CHR '' '' \<or> c = CHR 0x09 \<or> c = CHR 0x0A \<or> c = CHR 0x0D)"

definition skip_ws :: "string \<Rightarrow> string" where
  "skip_ws s = dropWhile is_ws s"

definition hex_value :: "char \<Rightarrow> nat option" where
  "hex_value c =
     (let n = of_char c :: nat in
      if 48 \<le> n \<and> n \<le> 57 then Some (n - 48)
      else if 97 \<le> n \<and> n \<le> 102 then Some (n - 87)
      else if 65 \<le> n \<and> n \<le> 70 then Some (n - 55)
      else None)"

text \<open>The four hexadecimal digits after \<open>\u\<close>.\<close>

definition decode_uXXXX :: "string \<Rightarrow> (nat \<times> string) option" where
  "decode_uXXXX s =
     (case s of
        a # b # c # d # rest \<Rightarrow>
          (case (hex_value a, hex_value b, hex_value c, hex_value d) of
             (Some x, Some y, Some z, Some w) \<Rightarrow> Some (((x * 16 + y) * 16 + z) * 16 + w, rest)
           | _ \<Rightarrow> None)
      | _ \<Rightarrow> None)"

definition unescape :: "char \<Rightarrow> nat option" where
  "unescape e =
     (if e = dquote then Some 0x22
      else if e = backslash then Some 0x5C
      else if e = CHR ''/'' then Some 0x2F
      else if e = CHR ''b'' then Some 0x08
      else if e = CHR ''f'' then Some 0x0C
      else if e = CHR ''n'' then Some 0x0A
      else if e = CHR ''r'' then Some 0x0D
      else if e = CHR ''t'' then Some 0x09
      else None)"

definition cons_char :: "nat \<Rightarrow> (pystr \<times> string) option \<Rightarrow> (pystr \<times> string) option" where
  "cons_char c r = (case r of None \<Rightarrow> None | Some (s, rest) \<Rightarrow> Some (c # s, rest))"

text \<open>
  The string scanner, started after the opening quote: it returns the string and the text
  after the closing quote. A raw control character is refused (strict mode). After a
  \<open>\uXXXX\<close> that is a high surrogate, a following \<open>\uXXXX\<close> that is a low surrogate is
  joined with it into one code point.
\<close>

function scanstring :: "string \<Rightarrow> (pystr \<times> string) option" where
  "scanstring [] = None"
| "scanstring (c # s) =
     (if c = dquote then Some ([], s)
      else if c = backslash then
        (case s of
           [] \<Rightarrow> None
         | e # s1 \<Rightarrow>
             if e = CHR ''u'' then
               (case decode_uXXXX s1 of
                  None \<Rightarrow> None
                | Some (uni, s2) \<Rightarrow>
                    if is_high_surrogate uni \<and> take 2 s2 = [backslash, CHR ''u''] then
                      (case decode_uXXXX (drop 2 s2) of
                         None \<Rightarrow> None
                       | Some (uni2, s3) \<Rightarrow>
                           if is_low_surrogate uni2
                           then cons_char (join_surrogates uni uni2) (scanstring s3)
                           else cons_char uni (scanstring s2))
                    else cons_char uni (scanstring s2))
             else (case unescape e of None \<Rightarrow> None | Some ch \<Rightarrow> cons_char ch (scanstring s1)))
      else if (of_char c :: nat) < 0x20 then None
      else cons_char (of_char c) (scanstring s))"
  by pat_completeness auto
termination
proof -
  have dl: "\<And>s n r. decode_uXXXX s = Some (n, r) \<Longrightarrow> length s = length r + 4"
    by (auto simp: decode_uXXXX_def split: list.splits option.splits)
  show ?thesis
    by (relation "measure length") (auto dest!: dl)
qed

text \<open>An integer literal: an optional minus sign, then \<open>0\<close> or digits that do not start with \<open>0\<close>.\<close>

definition is_digit :: "char \<Rightarrow> bool" where
  "is_digit c = (48 \<le> (of_char c :: nat) \<and> (of_char c :: nat) \<le> 57)"

definition digits_value :: "string \<Rightarrow> int" where
  "digits_value ds = foldl (\<lambda>acc c. acc * 10 + (int (of_char c) - 48)) 0 ds"

definition scan_number :: "string \<Rightarrow> (json \<times> string) option" where
  "scan_number s =
     (let neg = (take 1 s = ''-'');
          body = (if neg then drop 1 s else s);
          ds = (if take 1 body = ''0'' then ''0'' else takeWhile is_digit body);
          rest = drop (length ds) body
      in if ds = [] then None
         else if take 1 rest = ''.'' \<or> take 1 rest = ''e'' \<or> take 1 rest = ''E'' then None
         else Some (JInt (if neg then - digits_value ds else digits_value ds), rest))"

text \<open>
  The loops of an array and of an object. As in the decoder, they are given the scanner
  for the values they hold. Their first numeric argument bounds the number of items; a
  text cannot hold more items than it has characters.
\<close>

primrec array_items ::
  "(string \<Rightarrow> (json \<times> string) option) \<Rightarrow> nat \<Rightarrow> string \<Rightarrow> json list
     \<Rightarrow> (json \<times> string) option" where
  "array_items scan 0 s acc = None"
| "array_items scan (Suc k) s acc =
     (case scan s of
        None \<Rightarrow> None
      | Some (v, r) \<Rightarrow>
          (case skip_ws r of
             [] \<Rightarrow> None
           | c # r2 \<Rightarrow>
               if c = CHR '']'' then Some (JArr (acc @ [v]), r2)
               else if c = CHR '','' then array_items scan k (skip_ws r2) (acc @ [v])
               else None))"

definition JSONArray ::
  "(string \<Rightarrow> (json \<times> string) option) \<Rightarrow> string \<Rightarrow> (json \<times> string) option" where
  "JSONArray scan s =
     (case skip_ws s of
        [] \<Rightarrow> None
      | c # r \<Rightarrow>
          if c = CHR '']'' then Some (JArr [], r) else array_items scan (length s) (c # r) [])"

primrec object_items ::
  "(string \<Rightarrow> (json \<times> string) option) \<Rightarrow> nat \<Rightarrow> string \<Rightarrow> (pystr \<times> json) list
     \<Rightarrow> (json \<times> string) option" where
  "object_items scan 0 s acc = None"
| "object_items scan (Suc k) s acc =
     (case s of
        [] \<Rightarrow> None
      | c # rest \<Rightarrow>
          if c \<noteq> dquote then None
          else
            (case scanstring rest of
               None \<Rightarrow> None
             | Some (key, r) \<Rightarrow>
                 (case skip_ws r of
                    [] \<Rightarrow> None
                  | c2 # r2 \<Rightarrow>
                      if c2 \<noteq> CHR '':'' then None
                      else
                        (case scan (skip_ws r2) of
                           None \<Rightarrow> None
                         | Some (v, r3) \<Rightarrow>
                             (case skip_ws r3 of
                                [] \<Rightarrow> None
                              | c3 # r4 \<Rightarrow>
                                  if c3 = CHR ''}'' then Some (JObj (acc @ [(key, v)]), r4)
                                  else if c3 = CHR '','' then
                                    object_items scan k (skip_ws r4) (acc @ [(key, v)])
                                  else None)))))"

definition JSONObject ::
  "(string \<Rightarrow> (json \<times> string) option) \<Rightarrow> string \<Rightarrow> (json \<times> string) option" where
  "JSONObject scan s =
     (case skip_ws s of
        [] \<Rightarrow> None
      | c # r \<Rightarrow>
          if c = CHR ''}'' then Some (JObj [], r) else object_items scan (length s) (c # r) [])"

text \<open>One value, given the scanner for the values nested in it.\<close>

definition scan_value ::
  "(string \<Rightarrow> (json \<times> string) option) \<Rightarrow> string \<Rightarrow> (json \<times> string) option" where
  "scan_value scan s =
     (case s of
        [] \<Rightarrow> None
      | c # rest \<Rightarrow>
          if c = dquote then
            (case scanstring rest of None \<Rightarrow> None | Some (x, r) \<Rightarrow> Some (JStr x, r))
          else if c = CHR ''{'' then JSONObject scan rest
          else if c = CHR ''['' then JSONArray scan rest
          else if take 4 s = ''null'' then Some (JNull, drop 4 s)
          else if take 4 s = ''true'' then Some (JBool True, drop 4 s)
          else if take 5 s = ''false'' then Some (JBool False, drop 5 s)
          else scan_number s)"

text \<open>The scanner for values nested at most \<open>n\<close> deep.\<close>

primrec scan_once :: "nat \<Rightarrow> string \<Rightarrow> (json \<times> string) option" where
  "scan_once 0 s = None"
| "scan_once (Suc n) s = scan_value (scan_once n) s"

text \<open>
  \<open>json.loads\<close>: one value, with nothing but whitespace around it. A text cannot nest
  values deeper than it has characters.
\<close>

definition json_loads :: "string \<Rightarrow> json option" where
  "json_loads s =
     (case scan_once (Suc (length s)) (skip_ws s) of
        None \<Rightarrow> None
      | Some (v, r) \<Rightarrow> if skip_ws r = [] then Some v else None)"

text \<open>
  The strings that the writer and the reader agree on: every code point is below
  \<open>0x110000\<close>, and no high surrogate stands directly before a low surrogate. Well-formed
  Unicode text holds no surrogates at all.
\<close>

fun pair_free :: "pystr \<Rightarrow> bool" where
  "pair_free (a # b # s) = (\<not> (is_high_surrogate a \<and> is_low_surrogate b) \<and> pair_free (b # s))"
| "pair_free s = True"

definition plain_text :: "pystr \<Rightarrow> bool" where
  "plain_text s = (list_all (\<lambda>c. c < 0x110000) s \<and> pair_free s)"

definition plain_entry :: "entry \<Rightarrow> bool" where
  "plain_entry e = (plain_text (file_name e) \<and> plain_text (size_label e))"

section \<open>Example data\<close>

text \<open>A photo with one variant of the given width, height and label, liked and dated.\<close>

definition photo_of :: "int \<Rightarrow> int \<Rightarrow> string \<Rightarrow> int \<Rightarrow> int \<Rightarrow> photo" where
  "photo_of w h label n t =
     \<lparr>sizes = [\<lparr>width = w, height = h, url = str ''https://cdn.example/'' @ str label,
                type = str label\<rparr>],
      likes_count = n, date = t\<rparr>"

definition six_photos :: "photo list" where
  "six_photos =
     [photo_of 10 10 ''a'' 1 0, photo_of 30 30 ''b'' 2 86400, photo_of 20 20 ''c'' 3 172800,
      photo_of 30 30 ''d'' 4 259200, photo_of 5 5 ''e'' 5 345600, photo_of 10 10 ''f'' 6 432000]"

text \<open>The JSON item that the photo service sends for a photo record.\<close>

definition json_of_variant :: "size_variant \<Rightarrow> json" where
  "json_of_variant v =
     JObj [(str ''height'', JInt (height v)), (str ''type'', JStr (type v)),
           (str ''url'', JStr (url v)), (str ''width'', JInt (width v))]"

definition json_of_photo :: "photo \<Rightarrow> json" where
  "json_of_photo p =
     JObj [(str ''date'', JInt (date p)),
           (str ''likes'', JObj [(str ''count'', JInt (likes_count p))]),
           (str ''sizes'', JArr (map json_of_variant (sizes p)))]"

definition ok_json :: "json \<Rightarrow> response" where
  "ok_json j = \<lparr>status_code = 200, content = [], json_body = Some j\<rparr>"

definition puts_so_far :: "request list \<Rightarrow> nat" where
  "puts_so_far hist = length (filter (\<lambda>rq. case rq of PUT u d \<Rightarrow> True | _ \<Rightarrow> False) hist)"

text \<open>
  Remote services for one account: the photo service answers with the given items, the
  storage service hands out one destination, every photo URL serves four bytes, and a
  transfer is answered with the status that \<open>put_status\<close> gives for the number of
  transfers made before it. Every URL that occurs is one the library can use.
\<close>

definition services_answer :: "json list \<Rightarrow> (nat \<Rightarrow> nat) \<Rightarrow> request list \<Rightarrow> request \<Rightarrow> response option" where
  "services_answer items put_status hist rq =
     (case rq of
        GET u hdrs params \<Rightarrow>
          if u = str ''https://api.vk.com/method/photos.get''
          then Some (ok_json (JObj [(str ''response'', JObj [(str ''items'', JArr items)])]))
          else if u = str ''https://cloud-api.yandex.net/v1/disk/resources/upload''
          then Some (ok_json (JObj [(str ''href'', JStr (str ''https://up.example/1''))]))
          else Some \<lparr>status_code = 200, content = ''JPEG'', json_body = None\<rparr>
      | PUT u d \<Rightarrow>
          Some \<lparr>status_code = put_status (puts_so_far hist), content = [], json_body = None\<rparr>)"

definition services :: "json list \<Rightarrow> (nat \<Rightarrow> nat) \<Rightarrow> net" where
  "services items put_status =
     \<lparr>usable = (\<lambda>u. True), answer = services_answer items put_status\<rparr>"

definition empty_world :: world where
  "empty_world = \<lparr>trace = [], files = Map.empty\<rparr>"

text \<open>A photo service that answers 200 with an empty body.\<close>

definition empty_body_net :: net where
  "empty_body_net =
     \<lparr>usable = (\<lambda>u. True),
      answer = (\<lambda>hist rq. Some \<lparr>status_code = 200, content = [], json_body = None\<rparr>)\<rparr>"

text \<open>A service that cannot be reached, and one that answers every request with status 503.\<close>

definition down_net :: net where
  "down_net = \<lparr>usable = (\<lambda>u. True), answer = (\<lambda>hist rq. None)\<rparr>"

definition unavailable_net :: net where
  "unavailable_net =
     \<lparr>usable = (\<lambda>u. True),
      answer = (\<lambda>hist rq. Some \<lparr>status_code = 503, content = [], json_body = None\<rparr>)\<rparr>"

text \<open>A storage service that answers the destination request with an object without \<open>href\<close>.\<close>

definition no_href_net :: net where
  "no_href_net =
     \<lparr>usable = (\<lambda>u. True),
      answer = (\<lambda>hist rq. Some (ok_json (JObj [(str ''error'', JStr (str ''DiskPathError''))])))\<rparr>"

definition always_201 :: "nat \<Rightarrow> nat" where
  "always_201 n = 201"

definition first_500 :: "nat \<Rightarrow> nat" where
  "first_500 n = (if n = 0 then 500 else 201)"

definition one_item :: "json list" where
  "one_item = [json_of_photo (photo_of 10 10 ''w'' 42 1626343200)]"

text \<open>
  A photo source over the transport: it fetches as \<open>VK.get_photos\<close> does and hands on the
  given photo records, the fetched items read as records.
\<close>

definition vk_source :: "net \<Rightarrow> pystr \<Rightarrow> photo list \<Rightarrow> pystr \<Rightarrow> (photo list) io" where
  "vk_source nt access_token photos user_id =
     io_bind (get_photos nt access_token user_id) (\<lambda>items. io_return photos)"

text \<open>A photo with four variants, the second and the third of the same, greatest area.\<close>

definition tied_photo :: photo where
  "tied_photo =
     \<lparr>sizes = [\<lparr>width = 10, height = 10, url = str ''https://cdn.example/s'', type = str ''s''\<rparr>,
               \<lparr>width = 20, height = 30, url = str ''https://cdn.example/y'', type = str ''y''\<rparr>,
               \<lparr>width = 30, height = 20, url = str ''https://cdn.example/z'', type = str ''z''\<rparr>,
               \<lparr>width = 5, height = 5, url = str ''https://cdn.example/o'', type = str ''o''\<rparr>],
      likes_count = 8, date = 86400\<rparr>"

text \<open>
  Seven fetched photos of distinct resolutions. By descending resolution they are the
  second, the fourth, the seventh, the first and the fifth, then the third and the sixth.
\<close>

definition seven_photos :: "photo list" where
  "seven_photos =
     [tied_photo, photo_of 40 40 ''w'' 42 1626343200, photo_of 10 10 ''m'' 3 0,
      photo_of 30 30 ''b'' 2 86400, photo_of 20 20 ''c'' 3 172800, photo_of 5 5 ''e'' 5 345600,
      photo_of 25 25 ''f'' 6 432000]"

definition local_file :: world where
  "local_file = \<lparr>trace = [], files = [str ''a.jpg'' \<mapsto> ''JPEG'']\<rparr>"

section \<open>Properties of the maximal size variant\<close>

lemma max_key_first:
  "\<exists>i < length (b # xs). (b # xs) ! i = max_key f b xs
     \<and> (\<forall>j < i. f ((b # xs) ! j) < f (max_key f b xs))
     \<and> (\<forall>y \<in> set (b # xs). f y \<le> f (max_key f b xs))"
proof (induction xs arbitrary: b)
  case Nil
  show ?case by simp
next
  case (Cons x xs)
  show ?case
  proof (cases "f x > f b")
    case True
    from Cons.IH [of x] obtain i where i: "i < length (x # xs)"
      "(x # xs) ! i = max_key f x xs"
      "\<forall>j < i. f ((x # xs) ! j) < f (max_key f x xs)"
      "\<forall>y \<in> set (x # xs). f y \<le> f (max_key f x xs)"
      by blast
    from i(4) have xm: "f x \<le> f (max_key f x xs)" by simp
    have "\<forall>j < Suc i. f ((b # x # xs) ! j) < f (max_key f x xs)"
    proof (intro allI impI)
      fix j assume "j < Suc i"
      show "f ((b # x # xs) ! j) < f (max_key f x xs)"
      proof (cases j)
        case 0
        with True xm show ?thesis by simp
      next
        case (Suc k)
        with \<open>j < Suc i\<close> i(3) show ?thesis by simp
      qed
    qed
    moreover have "\<forall>y \<in> set (b # x # xs). f y \<le> f (max_key f x xs)"
      using i(4) True xm by auto
    ultimately show ?thesis
      using True i(1,2) by (intro exI [of _ "Suc i"]) simp
  next
    case False
    from Cons.IH [of b] obtain i where i: "i < length (b # xs)"
      "(b # xs) ! i = max_key f b xs"
      "\<forall>j < i. f ((b # xs) ! j) < f (max_key f b xs)"
      "\<forall>y \<in> set (b # xs). f y \<le> f (max_key f b xs)"
      by blast
    from i(4) have bm: "f b \<le> f (max_key f b xs)" by simp
    show ?thesis
    proof (cases i)
      case 0
      with i(2) have "max_key f b xs = b" by simp
      with False i(4) show ?thesis
        by (intro exI [of _ 0]) auto
    next
      case (Suc k)
      have "\<forall>j < Suc i. f ((b # x # xs) ! j) < f (max_key f b xs)"
      proof (intro allI impI)
        fix j assume j: "j < Suc i"
        show "f ((b # x # xs) ! j) < f (max_key f b xs)"
        proof (cases j)
          case 0
          with i(3) Suc show ?thesis by force
        next
          case (Suc j')
          show ?thesis
          proof (cases j')
            case 0
            from i(3) \<open>i = Suc k\<close> have "f b < f (max_key f b xs)" by force
            with False 0 \<open>j = Suc j'\<close> show ?thesis by simp
          next
            case (Suc j'')
            with \<open>j = Suc j'\<close> j i(3) show ?thesis by force
          qed
        qed
      qed
      moreover have "\<forall>y \<in> set (b # x # xs). f y \<le> f (max_key f b xs)"
        using i(4) False bm by auto
      moreover have "(b # x # xs) ! Suc i = max_key f b xs"
        using i(2) Suc by simp
      ultimately show ?thesis
        using False i(1) Suc by (intro exI [of _ "Suc i"]) simp
    qed
  qed
qed

text \<open>
  C2. For every PhotoRecord with at least one SizeVariant, \<open>get_max_size_photo\<close> returns
  a variant of the record whose width*height is maximal among the record's variants, and
  it is the first such variant in the record's order: every variant before it has a
  strictly smaller width*height.
\<close>

theorem get_max_size_photo_first_maximal:
  assumes "sizes p \<noteq> []"
  shows "\<exists>v i. get_max_size_photo p = Inr v
           \<and> i < length (sizes p) \<and> sizes p ! i = v
           \<and> (\<forall>u \<in> set (sizes p). area u \<le> area v)
           \<and> (\<forall>j < i. area (sizes p ! j) < area v)"
proof -
  from assms obtain b xs where bx: "sizes p = b # xs"
    by (cases "sizes p") auto
  from max_key_first [of b xs area] obtain i where
    "i < length (b # xs)" "(b # xs) ! i = max_key area b xs"
    "\<forall>j < i. area ((b # xs) ! j) < area (max_key area b xs)"
    "\<forall>y \<in> set (b # xs). area y \<le> area (max_key area b xs)"
    by blast
  then show ?thesis
    unfolding get_max_size_photo_def py_max_def bx by auto
qed

theorem get_max_size_photo_first_maximal_witness:
  "sizes tied_photo \<noteq> []
   \<and> area (sizes tied_photo ! 1) = 600 \<and> area (sizes tied_photo ! 2) = 600
   \<and> get_max_size_photo tied_photo
       = Inr \<lparr>width = 20, height = 30, url = str ''https://cdn.example/y'', type = str ''y''\<rparr>
   \<and> (\<exists>v i. get_max_size_photo tied_photo = Inr v
          \<and> i < length (sizes tied_photo) \<and> sizes tied_photo ! i = v
          \<and> (\<forall>u \<in> set (sizes tied_photo). area u \<le> area v)
          \<and> (\<forall>j < i. area (sizes tied_photo ! j) < area v))"
proof -
  have h: "sizes tied_photo \<noteq> []"
    by (simp add: tied_photo_def)
  have a: "area (sizes tied_photo ! 1) = 600" "area (sizes tied_photo ! 2) = 600"
    by (simp_all add: tied_photo_def area_def)
  have v: "get_max_size_photo tied_photo
       = Inr \<lparr>width = 20, height = 30, url = str ''https://cdn.example/y'', type = str ''y''\<rparr>"
    by (simp add: tied_photo_def get_max_size_photo_def py_max_def area_def)
  from get_max_size_photo_first_maximal [OF h] h a v show ?thesis by blast
qed

section \<open>Ranking and selection\<close>

lemma get_max_size_photo_Inr:
  "sizes p \<noteq> [] \<Longrightarrow> \<exists>v. get_max_size_photo p = Inr v \<and> v \<in> set (sizes p) \<and> area v = max_resolution p"
proof -
  assume ne: "sizes p \<noteq> []"
  then obtain b xs where bx: "sizes p = b # xs"
    by (cases "sizes p") auto
  from max_key_first [of b xs area] obtain i where
    "i < length (b # xs)" "(b # xs) ! i = max_key area b xs"
    "\<forall>y \<in> set (b # xs). area y \<le> area (max_key area b xs)"
    by blast
  then obtain v where
    v: "get_max_size_photo p = Inr v" "i < length (sizes p)" "sizes p ! i = v"
       "\<forall>u \<in> set (sizes p). area u \<le> area v"
    unfolding get_max_size_photo_def py_max_def bx by auto
  from v(2,3) have mem: "v \<in> set (sizes p)" by (metis nth_mem)
  have "Max (area ` set (sizes p)) = area v"
  proof (rule Max_eqI)
    show "finite (area ` set (sizes p))" by simp
    show "\<And>y. y \<in> area ` set (sizes p) \<Longrightarrow> y \<le> area v" using v(4) by auto
    show "area v \<in> area ` set (sizes p)" using mem by simp
  qed
  with v(1) mem show ?thesis by (auto simp: max_resolution_def)
qed

lemma photos_with_sizes_Inr:
  "\<forall>p \<in> set ps. sizes p \<noteq> [] \<Longrightarrow>
   photos_with_sizes ps = Inr (map (\<lambda>p. (p, max_resolution p)) ps)"
proof (induction ps)
  case Nil
  show ?case by simp
next
  case (Cons p ps)
  from Cons.prems have "sizes p \<noteq> []" by simp
  from get_max_size_photo_Inr [OF this] obtain v where
    v: "get_max_size_photo p = Inr v" "area v = max_resolution p" by blast
  from Cons have "photos_with_sizes ps = Inr (map (\<lambda>p. (p, max_resolution p)) ps)" by simp
  with v show ?case by (simp add: area_def)
qed

lemma photos_with_sizes_Inl:
  "\<exists>p \<in> set ps. sizes p = [] \<Longrightarrow> photos_with_sizes ps = Inl MaxEmptySequence"
proof (induction ps)
  case Nil
  then show ?case by simp
next
  case (Cons p ps)
  show ?case
  proof (cases "sizes p = []")
    case True
    then show ?thesis by (simp add: get_max_size_photo_def py_max_def)
  next
    case False
    with Cons.prems have "\<exists>p \<in> set ps. sizes p = []" by simp
    with Cons.IH have "photos_with_sizes ps = Inl MaxEmptySequence" by simp
    moreover from get_max_size_photo_Inr [OF False] obtain v where "get_max_size_photo p = Inr v" by blast
    ultimately show ?thesis by simp
  qed
qed

lemma mset_insert_desc: "mset (insert_desc f x xs) = add_mset x (mset xs)"
  by (induction xs) auto

lemma mset_sort_desc: "mset (sort_desc f xs) = mset xs"
  by (induction xs) (auto simp: mset_insert_desc)

lemma length_sort_desc: "length (sort_desc f xs) = length xs"
  by (metis mset_sort_desc size_mset)

lemma set_insert_desc: "set (insert_desc f x xs) = insert x (set xs)"
  by (induction xs) auto

lemma sorted_insert_desc:
  "sorted_wrt (\<lambda>a b. f b \<le> f a) xs \<Longrightarrow> sorted_wrt (\<lambda>a b. f b \<le> f a) (insert_desc f x xs)"
  by (induction xs) (auto simp: set_insert_desc)

lemma sorted_sort_desc: "sorted_wrt (\<lambda>a b. f b \<le> f a) (sort_desc f xs)"
  by (induction xs) (auto simp: sorted_insert_desc)

lemma filter_insert_desc_other:
  "f x \<noteq> k \<Longrightarrow> filter (\<lambda>y. f y = k) (insert_desc f x xs) = filter (\<lambda>y. f y = k) xs"
  by (induction xs) auto

lemma filter_insert_desc_same:
  "sorted_wrt (\<lambda>a b. f b \<le> f a) xs \<Longrightarrow>
   filter (\<lambda>y. f y = f x) (insert_desc f x xs) = x # filter (\<lambda>y. f y = f x) xs"
proof (induction xs)
  case Nil
  show ?case by simp
next
  case (Cons y ys)
  show ?case
  proof (cases "f y \<le> f x")
    case True
    then show ?thesis by simp
  next
    case False
    with Cons show ?thesis by auto
  qed
qed

lemma sort_desc_stable:
  "filter (\<lambda>y. f y = k) (sort_desc f xs) = filter (\<lambda>y. f y = k) xs"
proof (induction xs)
  case Nil
  show ?case by simp
next
  case (Cons x xs)
  show ?case
  proof (cases "f x = k")
    case True
    with Cons filter_insert_desc_same [OF sorted_sort_desc, of f x xs] show ?thesis by simp
  next
    case False
    with Cons show ?thesis by (simp add: filter_insert_desc_other)
  qed
qed

lemma insert_desc_tagged:
  "insert_desc snd (x, g x) (map (\<lambda>p. (p, g p)) ys) = map (\<lambda>p. (p, g p)) (insert_desc g x ys)"
  by (induction ys) auto

lemma sort_desc_tagged:
  "sort_desc snd (map (\<lambda>p. (p, g p)) ps) = map (\<lambda>p. (p, g p)) (sort_desc g ps)"
  by (induction ps) (auto simp: insert_desc_tagged)

lemma sort_desc_map_fst:
  "map fst (sort_desc snd (map (\<lambda>p. (p, g p)) ps)) = sort_desc g ps"
  by (simp add: sort_desc_tagged comp_def)

lemma top_photos_Inr:
  assumes "\<forall>p \<in> set photos. sizes p \<noteq> []"
  shows "top_photos photos = Inr (take 5 (sort_desc max_resolution photos))"
  using photos_with_sizes_Inr [OF assms]
  by (simp add: top_photos_def take_map [symmetric] sort_desc_map_fst)

text \<open>
  C1. For every fetched sequence of N photos, each with at least one size variant, the
  selection step of \<open>run\<close> yields exactly 5 photos when N is at least 5 and all N
  otherwise; the selected photos are photos of the fetched sequence, and each selected
  photo's maximal width*height is greater than or equal to that of the next one.
\<close>

theorem top_photos_five_descending:
  assumes "\<forall>p \<in> set photos. sizes p \<noteq> []"
  shows "\<exists>top. top_photos photos = Inr top
           \<and> length top = (if 5 \<le> length photos then 5 else length photos)
           \<and> (\<forall>i. Suc i < length top \<longrightarrow> max_resolution (top ! Suc i) \<le> max_resolution (top ! i))
           \<and> mset top \<subseteq># mset photos
           \<and> (length photos < 5 \<longrightarrow> mset top = mset photos)"
proof -
  let ?s = "sort_desc max_resolution photos"
  let ?top = "take 5 ?s"
  have t: "top_photos photos = Inr ?top" by (rule top_photos_Inr [OF assms])
  have len: "length ?top = (if 5 \<le> length photos then 5 else length photos)"
    by (simp add: length_sort_desc)
  have "sorted_wrt (\<lambda>a b. max_resolution b \<le> max_resolution a) ?top"
    by (rule sorted_wrt_take [OF sorted_sort_desc])
  then have desc: "\<forall>i. Suc i < length ?top \<longrightarrow> max_resolution (?top ! Suc i) \<le> max_resolution (?top ! i)"
    by (simp add: sorted_wrt_iff_nth_less del: length_take)
  have "mset ?top \<subseteq># mset ?s"
    by (metis append_take_drop_id mset_append mset_subset_eq_add_left)
  then have sub: "mset ?top \<subseteq># mset photos" by (simp add: mset_sort_desc)
  have all: "length photos < 5 \<longrightarrow> mset ?top = mset photos"
    by (simp add: length_sort_desc mset_sort_desc)
  from t len desc sub all show ?thesis by blast
qed

text \<open>
  C9. The selection is stable with respect to the fetched order: the ranking keeps the
  photos of any one maximal resolution \<open>k\<close> in the order in which they were fetched,
  and the selected photos of that resolution are an initial part of the fetched photos of
  that resolution, so an earlier photo is ranked before, and chosen in preference to, a
  later photo of the same resolution.
\<close>

theorem top_photos_stable:
  assumes "\<forall>p \<in> set photos. sizes p \<noteq> []"
  shows "\<exists>ranked top. top_photos photos = Inr top \<and> top = take 5 ranked
           \<and> mset ranked = mset photos
           \<and> sorted_wrt (\<lambda>a b. max_resolution b \<le> max_resolution a) ranked
           \<and> filter (\<lambda>p. max_resolution p = k) ranked = filter (\<lambda>p. max_resolution p = k) photos
           \<and> prefix (filter (\<lambda>p. max_resolution p = k) top) (filter (\<lambda>p. max_resolution p = k) photos)"
proof -
  let ?s = "sort_desc max_resolution photos"
  have "prefix (take 5 ?s) ?s" by (rule take_is_prefix)
  then have "prefix (filter (\<lambda>p. max_resolution p = k) (take 5 ?s)) (filter (\<lambda>p. max_resolution p = k) ?s)"
    by (rule filter_mono_prefix)
  then show ?thesis
    using top_photos_Inr [OF assms] sort_desc_stable [of max_resolution k photos]
      mset_sort_desc [of max_resolution photos] sorted_sort_desc [of max_resolution photos]
    by auto
qed


lemma six_photos_sizes: "\<forall>p \<in> set six_photos. sizes p \<noteq> []"
  by (simp add: six_photos_def photo_of_def)

theorem top_photos_five_descending_witness:
  "length six_photos = 6
   \<and> (\<exists>top. top_photos six_photos = Inr top
         \<and> length top = 5
         \<and> (\<forall>i. Suc i < length top \<longrightarrow> max_resolution (top ! Suc i) \<le> max_resolution (top ! i))
         \<and> mset top \<subseteq># mset six_photos)"
proof -
  have n: "length six_photos = 6" by (simp add: six_photos_def)
  from top_photos_five_descending [OF six_photos_sizes] n show ?thesis by auto
qed

theorem top_photos_stable_witness:
  "(\<exists>ranked top. top_photos six_photos = Inr top \<and> top = take 5 ranked
         \<and> mset ranked = mset six_photos
         \<and> sorted_wrt (\<lambda>a b. max_resolution b \<le> max_resolution a) ranked
         \<and> filter (\<lambda>p. max_resolution p = 900) ranked = filter (\<lambda>p. max_resolution p = 900) six_photos
         \<and> prefix (filter (\<lambda>p. max_resolution p = 900) top)
             (filter (\<lambda>p. max_resolution p = 900) six_photos))"
  using top_photos_stable [OF six_photos_sizes, of 900] by blast

section \<open>The calendar date of a day number\<close>

lemma month_day_case:
  fixes n :: int
  assumes "32 * k \<le> n + 50" "n + 50 < 32 * k + 32" "0 \<le> n" "n \<le> 364"
    and k: "k = 1 \<or> k = 2 \<or> k = 3 \<or> k = 4 \<or> k = 5 \<or> k = 6
      \<or> k = 7 \<or> k = 8 \<or> k = 9 \<or> k = 10 \<or> k = 11 \<or> k = 12"
    and res: "(if DAYS_BEFORE_MONTH k + (if k > 2 \<and> L then 1 else 0) > n
      then (k - 1, n - (DAYS_BEFORE_MONTH k + (if k > 2 \<and> L then 1 else 0)
              - (DAYS_IN_MONTH (k - 1) + (if k - 1 = 2 \<and> L then 1 else 0))) + 1)
      else (k, n - (DAYS_BEFORE_MONTH k + (if k > 2 \<and> L then 1 else 0)) + 1)) = (m, d)"
  shows "1 \<le> m \<and> m \<le> 12 \<and> 1 \<le> d \<and> d \<le> DAYS_IN_MONTH m + (if m = 2 \<and> L then 1 else 0)
         \<and> DAYS_BEFORE_MONTH m + (if m > 2 \<and> L then 1 else 0) + d = n + 1"
  using k
proof (elim disjE)
  assume "k = 1" with assms(1-4) res show ?thesis
    by (cases L) (auto simp: DAYS_BEFORE_MONTH_def DAYS_IN_MONTH_def split: if_splits)
next
  assume "k = 2" with assms(1-4) res show ?thesis
    by (cases L) (auto simp: DAYS_BEFORE_MONTH_def DAYS_IN_MONTH_def split: if_splits)
next
  assume "k = 3" with assms(1-4) res show ?thesis
    by (cases L) (auto simp: DAYS_BEFORE_MONTH_def DAYS_IN_MONTH_def split: if_splits)
next
  assume "k = 4" with assms(1-4) res show ?thesis
    by (cases L) (auto simp: DAYS_BEFORE_MONTH_def DAYS_IN_MONTH_def split: if_splits)
next
  assume "k = 5" with assms(1-4) res show ?thesis
    by (cases L) (auto simp: DAYS_BEFORE_MONTH_def DAYS_IN_MONTH_def split: if_splits)
next
  assume "k = 6" with assms(1-4) res show ?thesis
    by (cases L) (auto simp: DAYS_BEFORE_MONTH_def DAYS_IN_MONTH_def split: if_splits)
next
  assume "k = 7" with assms(1-4) res show ?thesis
    by (cases L) (auto simp: DAYS_BEFORE_MONTH_def DAYS_IN_MONTH_def split: if_splits)
next
  assume "k = 8" with assms(1-4) res show ?thesis
    by (cases L) (auto simp: DAYS_BEFORE_MONTH_def DAYS_IN_MONTH_def split: if_splits)
next
  assume "k = 9" with assms(1-4) res show ?thesis
    by (cases L) (auto simp: DAYS_BEFORE_MONTH_def DAYS_IN_MONTH_def split: if_splits)
next
  assume "k = 10" with assms(1-4) res show ?thesis
    by (cases L) (auto simp: DAYS_BEFORE_MONTH_def DAYS_IN_MONTH_def split: if_splits)
next
  assume "k = 11" with assms(1-4) res show ?thesis
    by (cases L) (auto simp: DAYS_BEFORE_MONTH_def DAYS_IN_MONTH_def split: if_splits)
next
  assume "k = 12" with assms(1-4) res show ?thesis
    by (cases L) (auto simp: DAYS_BEFORE_MONTH_def DAYS_IN_MONTH_def split: if_splits)
qed

lemma month_day:
  fixes n :: int
  assumes n: "0 \<le> n" "n \<le> 364"
    and res: "(if DAYS_BEFORE_MONTH ((n + 50) div 32) + (if (n + 50) div 32 > 2 \<and> L then 1 else 0) > n
      then ((n + 50) div 32 - 1,
            n - (DAYS_BEFORE_MONTH ((n + 50) div 32) + (if (n + 50) div 32 > 2 \<and> L then 1 else 0)
              - (DAYS_IN_MONTH ((n + 50) div 32 - 1) + (if (n + 50) div 32 - 1 = 2 \<and> L then 1 else 0))) + 1)
      else ((n + 50) div 32,
            n - (DAYS_BEFORE_MONTH ((n + 50) div 32) + (if (n + 50) div 32 > 2 \<and> L then 1 else 0)) + 1))
        = (m, d)"
  shows "1 \<le> m \<and> m \<le> 12 \<and> 1 \<le> d \<and> d \<le> DAYS_IN_MONTH m + (if m = 2 \<and> L then 1 else 0)
         \<and> DAYS_BEFORE_MONTH m + (if m > 2 \<and> L then 1 else 0) + d = n + 1"
proof -
  define k where "k = (n + 50) div 32"
  have b: "32 * k \<le> n + 50" "n + 50 < 32 * k + 32"
    unfolding k_def by arith+
  with n have "1 \<le> k" "k \<le> 12" by arith+
  then have k12: "k = 1 \<or> k = 2 \<or> k = 3 \<or> k = 4 \<or> k = 5 \<or> k = 6
      \<or> k = 7 \<or> k = 8 \<or> k = 9 \<or> k = 10 \<or> k = 11 \<or> k = 12"
    by arith
  show ?thesis
    by (rule month_day_case [OF b n k12]) (use res in \<open>simp only: k_def\<close>)
qed

lemma divmod_decomp:
  fixes k t r :: int
  assumes "0 \<le> r" "r < k"
  shows "(k * t + r) div k = t" and "(k * t + r) mod k = r"
  using assms by simp_all

lemma days_before_year_split:
  fixes q a b c :: int
  assumes "0 \<le> a" "a \<le> 3" "0 \<le> b" "b \<le> 24" "0 \<le> c" "c \<le> 3"
  shows "days_before_year (400 * q + 100 * a + 4 * b + c + 1)
           = 146097 * q + 36524 * a + 1461 * b + 365 * c"
proof -
  let ?y = "400 * q + 100 * a + 4 * b + c"
  have "?y = 4 * (100 * q + 25 * a + b) + c" by simp
  then have d4: "?y div 4 = 100 * q + 25 * a + b"
    using divmod_decomp(1) [of c 4 "100 * q + 25 * a + b"] assms by simp
  have "?y = 100 * (4 * q + a) + (4 * b + c)" by simp
  then have d100: "?y div 100 = 4 * q + a"
    using divmod_decomp(1) [of "4 * b + c" 100 "4 * q + a"] assms by simp
  have "?y = 400 * q + (100 * a + 4 * b + c)" by simp
  then have d400: "?y div 400 = q"
    using divmod_decomp(1) [of "100 * a + 4 * b + c" 400 q] assms by simp
  show ?thesis
    by (simp add: days_before_year_def Let_def d4 d100 d400)
qed

lemma mod_zero_shift:
  fixes k t r :: int
  assumes "0 < r" "r \<le> k"
  shows "(k * t + r) mod k = 0 \<longleftrightarrow> r = k"
proof (cases "r = k")
  case True
  then show ?thesis by simp
next
  case False
  with assms have "(k * t + r) mod k = r" by (intro divmod_decomp(2)) simp_all
  with assms False show ?thesis by simp
qed

lemma is_leap_split:
  fixes q a b c :: int
  assumes "0 \<le> a" "a \<le> 3" "0 \<le> b" "b \<le> 24" "0 \<le> c" "c \<le> 3"
  shows "is_leap (400 * q + 100 * a + 4 * b + c + 1) \<longleftrightarrow> c = 3 \<and> (b \<noteq> 24 \<or> a = 3)"
proof -
  let ?y = "400 * q + 100 * a + 4 * b + c + 1"
  have e4: "?y = 4 * (100 * q + 25 * a + b) + (c + 1)" by simp
  have "(4 * (100 * q + 25 * a + b) + (c + 1)) mod 4 = 0 \<longleftrightarrow> c + 1 = 4"
    using assms by (intro mod_zero_shift) auto
  then have "?y mod 4 = 0 \<longleftrightarrow> c + 1 = 4" by (simp only: e4 [symmetric])
  moreover have "c + 1 = 4 \<longleftrightarrow> c = 3" by arith
  ultimately have m4: "?y mod 4 = 0 \<longleftrightarrow> c = 3" by (simp only:)
  have e100: "?y = 100 * (4 * q + a) + (4 * b + c + 1)" by simp
  have "(100 * (4 * q + a) + (4 * b + c + 1)) mod 100 = 0 \<longleftrightarrow> 4 * b + c + 1 = 100"
    using assms by (intro mod_zero_shift) auto
  then have "?y mod 100 = 0 \<longleftrightarrow> 4 * b + c + 1 = 100" by (simp only: e100 [symmetric])
  moreover have "4 * b + c + 1 = 100 \<longleftrightarrow> b = 24 \<and> c = 3" using assms by arith
  ultimately have m100: "?y mod 100 = 0 \<longleftrightarrow> b = 24 \<and> c = 3" by (simp only:)
  have e400: "?y = 400 * q + (100 * a + 4 * b + c + 1)" by simp
  have "(400 * q + (100 * a + 4 * b + c + 1)) mod 400 = 0 \<longleftrightarrow> 100 * a + 4 * b + c + 1 = 400"
    using assms by (intro mod_zero_shift) auto
  then have "?y mod 400 = 0 \<longleftrightarrow> 100 * a + 4 * b + c + 1 = 400" by (simp only: e400 [symmetric])
  moreover have "100 * a + 4 * b + c + 1 = 400 \<longleftrightarrow> a = 3 \<and> b = 24 \<and> c = 3"
    using assms by arith
  ultimately have m400: "?y mod 400 = 0 \<longleftrightarrow> a = 3 \<and> b = 24 \<and> c = 3" by (simp only:)
  show ?thesis unfolding is_leap_def m4 m100 m400 by blast
qed


lemma ord2ymd_correct:
  assumes res: "ord2ymd ordinal = (y, m, d)"
  shows "1 \<le> m \<and> m \<le> 12 \<and> 1 \<le> d \<and> d \<le> days_in_month y m \<and> ymd2ord y m d = ordinal"
proof -
  define n0 where "n0 = ordinal - 1"
  define q where "q = n0 div 146097"
  define r where "r = n0 mod 146097"
  define a where "a = r div 36524"
  define r2 where "r2 = r mod 36524"
  define b where "b = r2 div 1461"
  define r3 where "r3 = r2 mod 1461"
  define c where "c = r3 div 365"
  define r4 where "r4 = r3 mod 365"
  have s1: "n0 = 146097 * q + r" "0 \<le> r" "r < 146097" by (simp_all add: q_def r_def)
  have s2: "r = 36524 * a + r2" "0 \<le> r2" "r2 < 36524" by (simp_all add: a_def r2_def)
  have s3: "r2 = 1461 * b + r3" "0 \<le> r3" "r3 < 1461" by (simp_all add: b_def r3_def)
  have s4: "r3 = 365 * c + r4" "0 \<le> r4" "r4 < 365" by (simp_all add: c_def r4_def)
  have ra: "0 \<le> a" "a \<le> 4" using s1 s2 by linarith+
  have rb: "0 \<le> b" "b \<le> 24" using s2 s3 by linarith+
  have rc: "0 \<le> c" "c \<le> 4" using s3 s4 by linarith+
  define L where "L \<longleftrightarrow> c = 3 \<and> (b \<noteq> 24 \<or> a = 3)"
  let ?Y = "q * 400 + 1 + a * 100 + b * 4 + c"
  let ?k = "(r4 + 50) div 32"
  let ?pre = "DAYS_BEFORE_MONTH ?k + (if ?k > 2 \<and> L then 1 else 0)"
  let ?D1 = "r4 - (?pre - (DAYS_IN_MONTH (?k - 1) + (if ?k - 1 = 2 \<and> L then 1 else 0))) + 1"
  let ?D2 = "r4 - ?pre + 1"
  have unf: "ord2ymd ordinal =
      (if c = 4 \<or> a = 4 then (?Y - 1, 12, 31)
       else if ?pre > r4 then (?Y, ?k - 1, ?D1) else (?Y, ?k, ?D2))"
    unfolding ord2ymd_def Let_def L_def r4_def c_def r3_def b_def r2_def a_def r_def q_def n0_def
    by (rule refl)
  have ord: "ordinal = 146097 * q + 36524 * a + 1461 * b + 365 * c + r4 + 1"
    using s1 s2 s3 s4 by (simp add: n0_def)
  have special: "y = 400 * q + 100 * a' + 4 * b' + 3 + 1 \<Longrightarrow> m = 12 \<Longrightarrow> d = 31
      \<Longrightarrow> 0 \<le> a' \<Longrightarrow> a' \<le> 3 \<Longrightarrow> 0 \<le> b' \<Longrightarrow> b' \<le> 24 \<Longrightarrow> b' \<noteq> 24 \<or> a' = 3
      \<Longrightarrow> ordinal = 146097 * q + 36524 * a' + 1461 * b' + 1461 \<Longrightarrow> ?thesis" for a' b'
  proof -
    assume y: "y = 400 * q + 100 * a' + 4 * b' + 3 + 1" and md: "m = 12" "d = 31"
      and r: "0 \<le> a'" "a' \<le> 3" "0 \<le> b'" "b' \<le> 24" and l: "b' \<noteq> 24 \<or> a' = 3"
      and o: "ordinal = 146097 * q + 36524 * a' + 1461 * b' + 1461"
    have "is_leap y \<longleftrightarrow> (3::int) = 3 \<and> (b' \<noteq> 24 \<or> a' = 3)"
      unfolding y by (rule is_leap_split [OF r]) simp_all
    with l have lp: "is_leap y" by simp
    have dby: "days_before_year y = 146097 * q + 36524 * a' + 1461 * b' + 365 * 3"
      unfolding y by (rule days_before_year_split [OF r]) simp_all
    from lp dby md o show ?thesis
      by (simp add: ymd2ord_def days_before_month_def days_in_month_def DAYS_BEFORE_MONTH_def
          DAYS_IN_MONTH_def)
  qed
  show ?thesis
  proof (cases "a = 4")
    case True
    with s1 s2 have "r2 = 0" by linarith
    with s3 rb have "b = 0" "r3 = 0" by linarith+
    with s4 rc have "c = 0" "r4 = 0" by linarith+
    from unf [unfolded res] True have "(y, m, d) = (?Y - 1, 12, 31)" by simp
    with True \<open>b = 0\<close> \<open>c = 0\<close> have ymd: "y = 400 * q + 100 * 3 + 4 * 24 + 3 + 1" "m = 12" "d = 31"
      by simp_all
    have "ordinal = 146097 * q + 36524 * 3 + 1461 * 24 + 1461"
      using ord True \<open>b = 0\<close> \<open>c = 0\<close> \<open>r4 = 0\<close> by simp
    with ymd show ?thesis by (intro special [of 3 24]) simp_all
  next
    case False
    with ra have a3: "a \<le> 3" by simp
    show ?thesis
    proof (cases "c = 4")
      case True
      with s3 s4 have "r4 = 0" by linarith
      with s2 s3 s4 True have b23: "b \<le> 23" by linarith
      from unf [unfolded res] True have "(y, m, d) = (?Y - 1, 12, 31)" by simp
      with True have ymd: "y = 400 * q + 100 * a + 4 * b + 3 + 1" "m = 12" "d = 31"
        by simp_all
      have "ordinal = 146097 * q + 36524 * a + 1461 * b + 1461"
        using ord True \<open>r4 = 0\<close> by simp
      with ymd ra a3 rb b23 show ?thesis by (intro special [of a b]) simp_all
    next
      case c4: False
      with rc have c3: "c \<le> 3" by simp
      have ne: "\<not> (c = 4 \<or> a = 4)" using False c4 by simp
      have u2: "(y, m, d) = (if ?pre > r4 then (?Y, ?k - 1, ?D1) else (?Y, ?k, ?D2))"
        using unf [unfolded res] by (simp only: ne if_False)
      have ymd: "y = ?Y \<and> (if ?pre > r4 then (?k - 1, ?D1) else (?k, ?D2)) = (m, d)"
      proof (cases "?pre > r4")
        case True
        with u2 have "(y, m, d) = (?Y, ?k - 1, ?D1)" by (simp only: if_True)
        with True show ?thesis by (simp only: if_True prod.inject)
      next
        case False
        with u2 have "(y, m, d) = (?Y, ?k, ?D2)" by (simp only: if_False)
        with False show ?thesis by (simp only: if_False prod.inject)
      qed
      then have y: "y = 400 * q + 100 * a + 4 * b + c + 1" by simp
      from ymd have md: "(if ?pre > r4 then (?k - 1, ?D1) else (?k, ?D2)) = (m, d)" by blast
      have lp: "is_leap y \<longleftrightarrow> L"
        unfolding y L_def by (rule is_leap_split [OF ra(1) a3 rb rc(1) c3])
      have dby: "days_before_year y = 146097 * q + 36524 * a + 1461 * b + 365 * c"
        unfolding y by (rule days_before_year_split [OF ra(1) a3 rb rc(1) c3])
      have r4b: "0 \<le> r4" "r4 \<le> 364" using s4 by simp_all
      from month_day [OF r4b md] have f:
        "1 \<le> m" "m \<le> 12" "1 \<le> d" "d \<le> DAYS_IN_MONTH m + (if m = 2 \<and> L then 1 else 0)"
        "DAYS_BEFORE_MONTH m + (if m > 2 \<and> L then 1 else 0) + d = r4 + 1"
        by simp_all
      have dim: "days_in_month y m = DAYS_IN_MONTH m + (if m = 2 \<and> L then 1 else 0)"
        by (simp add: days_in_month_def lp DAYS_IN_MONTH_def)
      have dbm: "days_before_month y m = DAYS_BEFORE_MONTH m + (if m > 2 \<and> L then 1 else 0)"
        by (simp add: days_before_month_def lp)
      from f dim dbm dby ord show ?thesis
        by (simp add: ymd2ord_def)
    qed
  qed
qed

section \<open>The derived file name\<close>

lemma length_digits_1: "n < 10 \<Longrightarrow> length (digits n) = 1"
  by (subst digits.simps) simp

lemma length_digits_2: "10 \<le> n \<Longrightarrow> n < 100 \<Longrightarrow> length (digits n) = 2"
  by (subst digits.simps) (simp add: length_digits_1)

lemma length_digits_3: "100 \<le> n \<Longrightarrow> n < 1000 \<Longrightarrow> length (digits n) = 3"
  by (subst digits.simps) (simp add: length_digits_2)

lemma length_digits_4: "1000 \<le> n \<Longrightarrow> n < 10000 \<Longrightarrow> length (digits n) = 4"
  by (subst digits.simps) (simp add: length_digits_3)

lemma length_show_year: "1000 \<le> y \<Longrightarrow> y \<le> 9999 \<Longrightarrow> length (show_int y) = 4"
  by (simp add: show_int_def length_digits_4)

lemma length_show_early_year: "1 \<le> y \<Longrightarrow> y < 1000 \<Longrightarrow> length (show_int y) < 4"
proof -
  assume y: "1 \<le> y" "y < 1000"
  consider "nat y < 10" | "10 \<le> nat y" "nat y < 100" | "100 \<le> nat y" "nat y < 1000"
    using y by linarith
  then have "length (digits (nat y)) < 4"
    by cases (simp_all add: length_digits_1 length_digits_2 length_digits_3)
  with y show ?thesis by (simp add: show_int_def)
qed

lemma length_pad2: "0 \<le> n \<Longrightarrow> n < 100 \<Longrightarrow> length (pad2 n) = 2"
  by (simp add: pad2_def show_int_def length_digits_1 length_digits_2)

lemma days_in_month_le: "days_in_month y m \<le> 31"
  by (simp add: days_in_month_def DAYS_IN_MONTH_def)

lemma epoch_day: "ymd2ord 1970 1 1 = 719163"
  by (simp add: ymd2ord_def days_before_year_def days_before_month_def DAYS_BEFORE_MONTH_def Let_def)

lemma july_15: "(ymd2ord 2021 7 15 - ymd2ord 1970 1 1) * 86400 + 10 * 3600 = 1626343200"
  by (simp add: ymd2ord_def days_before_year_def days_before_month_def DAYS_BEFORE_MONTH_def Let_def is_leap_def)

lemma file_name_july_15:
  "photo_file_name \<lparr>sizes = ss, likes_count = 42, date = 1626343200\<rparr> = Inr (str ''42_2021-07-15.jpg'')"
  by (simp add: photo_file_name_def fromtimestamp_def ord2ymd_def Let_def DAYS_BEFORE_MONTH_def
      DAYS_IN_MONTH_def strftime_def show_int_def digits.simps digit_char_def pad2_def)

lemma day_of_year_bounds:
  assumes "1 \<le> m" "m \<le> 12" "1 \<le> d" "d \<le> days_in_month y m"
  shows "1 \<le> days_before_month y m + d"
    and "days_before_month y m + d \<le> (if is_leap y then 366 else 365)"
proof -
  from assms(1,2) have k: "m = 1 \<or> m = 2 \<or> m = 3 \<or> m = 4 \<or> m = 5 \<or> m = 6
      \<or> m = 7 \<or> m = 8 \<or> m = 9 \<or> m = 10 \<or> m = 11 \<or> m = 12"
    by arith
  from k assms(3,4) show "1 \<le> days_before_month y m + d"
    by (elim disjE) (simp_all add: days_before_month_def DAYS_BEFORE_MONTH_def)
  from k assms(3,4) show "days_before_month y m + d \<le> (if is_leap y then 366 else 365)"
    by (elim disjE)
       (simp_all add: days_before_month_def DAYS_BEFORE_MONTH_def days_in_month_def DAYS_IN_MONTH_def
          split: if_splits)
qed

lemma div_bounds:
  fixes z :: int
  shows "4 * (z div 4) \<le> z" "z - 3 \<le> 4 * (z div 4)"
    "100 * (z div 100) \<le> z" "z - 99 \<le> 100 * (z div 100)"
    "400 * (z div 400) \<le> z" "z - 399 \<le> 400 * (z div 400)"
  by arith+

lemma days_before_year_upper:
  assumes "y \<le> 998"
  shows "days_before_year y \<le> 364147"
proof -
  define z where "z = y - 1"
  define a where "a = z div 4"
  define b where "b = z div 100"
  define c where "c = z div 400"
  have "4 * a \<le> z" "z - 99 \<le> 100 * b" "400 * c \<le> z"
    unfolding a_def b_def c_def by (rule div_bounds)+
  moreover have "z \<le> 997" using assms by (simp add: z_def)
  ultimately have "z * 365 + a - b + c \<le> 364147" by arith
  then show ?thesis
    by (simp add: days_before_year_def Let_def z_def a_def b_def c_def)
qed

lemma days_before_year_lower:
  assumes "1001 \<le> y"
  shows "365241 \<le> days_before_year y"
proof -
  define z where "z = y - 1"
  define a where "a = z div 4"
  define b where "b = z div 100"
  define c where "c = z div 400"
  have "z - 3 \<le> 4 * a" "100 * b \<le> z" "z - 399 \<le> 400 * c"
    unfolding a_def b_def c_def by (rule div_bounds)+
  moreover have "1000 \<le> z" using assms by (simp add: z_def)
  ultimately have "365241 \<le> z * 365 + a - b + c" by arith
  then show ?thesis
    by (simp add: days_before_year_def Let_def z_def a_def b_def c_def)
qed

lemma year_1000_iff:
  assumes "1 \<le> m" "m \<le> 12" "1 \<le> d" "d \<le> days_in_month y m"
  shows "1000 \<le> y \<longleftrightarrow> 364878 \<le> ymd2ord y m d"
proof -
  note b = day_of_year_bounds [OF assms]
  have le366: "days_before_month y m + d \<le> 366"
    using b(2) by (simp split: if_splits)
  consider "y \<le> 998" | "y = 999" | "y = 1000" | "1001 \<le> y" by arith
  then show ?thesis
  proof cases
    case 1
    from days_before_year_upper [OF 1] le366 have "ymd2ord y m d \<le> 364513"
      by (simp add: ymd2ord_def)
    with 1 show ?thesis by simp
  next
    case 2
    have "days_before_year 999 = 364512" "\<not> is_leap 999"
      by (simp_all add: days_before_year_def Let_def is_leap_def)
    with b(2) 2 have "ymd2ord y m d \<le> 364877"
      by (simp add: ymd2ord_def)
    with 2 show ?thesis by simp
  next
    case 3
    have "days_before_year 1000 = 364877"
      by (simp add: days_before_year_def Let_def)
    with b(1) 3 have "364878 \<le> ymd2ord y m d"
      by (simp add: ymd2ord_def)
    with 3 show ?thesis by simp
  next
    case 4
    from days_before_year_lower [OF 4] b(1) have "364878 \<le> ymd2ord y m d"
      by (simp add: ymd2ord_def)
    with 4 show ?thesis by simp
  qed
qed

lemma timestamp_day: "- 354285 \<le> (t :: int) div 86400 \<longleftrightarrow> - 30610224000 \<le> t"
  by arith


lemma of_char_digit_char: "d < 10 \<Longrightarrow> int (of_char (digit_char d)) = 48 + int d"
proof -
  assume "d < 10"
  then have "d = 0 \<or> d = 1 \<or> d = 2 \<or> d = 3 \<or> d = 4 \<or> d = 5 \<or> d = 6 \<or> d = 7
    \<or> d = 8 \<or> d = 9" by arith
  then show ?thesis by (elim disjE) (simp_all add: digit_char_def)
qed

lemma digits_value_snoc: "digits_value (ds @ [c]) = digits_value ds * 10 + (int (of_char c) - 48)"
  by (simp add: digits_value_def)

lemma digits_value_digits: "digits_value (digits n) = int n"
proof (induction n rule: digits.induct)
  case (1 n)
  show ?case
  proof (cases "n < 10")
    case True
    then show ?thesis
      by (subst digits.simps) (simp add: digits_value_def of_char_digit_char)
  next
    case False
    have m: "n mod 10 < 10" by simp
    from False 1 have ih: "digits_value (digits (n div 10)) = int (n div 10)" by simp
    have "digits_value (digits n) = digits_value (digits (n div 10) @ [digit_char (n mod 10)])"
      using False by (subst digits.simps) simp
    also have "\<dots> = int (n div 10) * 10 + int (n mod 10)"
      by (simp add: digits_value_snoc ih of_char_digit_char [OF m])
    also have "\<dots> = int n" by (simp add: zdiv_int zmod_int)
    finally show ?thesis .
  qed
qed

lemma digits_value_show_int: "0 \<le> i \<Longrightarrow> digits_value (show_int i) = i"
  by (simp add: show_int_def digits_value_digits)

lemma digits_value_zero: "digits_value (CHR ''0'' # ds) = digits_value ds"
  by (simp add: digits_value_def)

lemma digits_value_pad2: "0 \<le> n \<Longrightarrow> digits_value (pad2 n) = n"
  by (simp add: pad2_def digits_value_zero digits_value_show_int)


lemma file_name_year_999:
  "photo_file_name \<lparr>sizes = ss, likes_count = 3, date = - 30610224001\<rparr> = Inr (str ''3_999-12-31.jpg'')"
  by (simp add: photo_file_name_def fromtimestamp_def ord2ymd_def Let_def DAYS_BEFORE_MONTH_def
      DAYS_IN_MONTH_def strftime_def show_int_def digits.simps digit_char_def pad2_def)

text \<open>
  C3 as stated fails: the year is printed as a plain number, not padded to four digits. A
  photo with 3 likes whose timestamp is the last second of the year 999 gets the name
  \<open>3_999-12-31.jpg\<close>, whose date is not of the form YYYY-MM-DD.
\<close>

theorem file_name_year_999_counterexample:
  "photo_file_name \<lparr>sizes = [], likes_count = 3, date = - 30610224001\<rparr>
     = Inr (str ''3_999-12-31.jpg'')
   \<and> photo_file_name \<lparr>sizes = [], likes_count = 3, date = - 30610224001\<rparr>
     \<noteq> Inr (str ''3_0999-12-31.jpg'')"
  by (simp add: file_name_year_999 str_def)

text \<open>
  C3 (amended). For every photo whose file name is derived, the name is the decimal like
  count, an underscore, the year, a hyphen, the two-digit month, a hyphen, the two-digit
  day and \<open>.jpg\<close>, where year, month and day are the valid calendar date that lies as many
  days after 1970-01-01 as the timestamp holds whole days (the date in UTC), each printed
  in decimal digits that read back as the number. The year is
  in 1 to 9999 and is printed without padding: it has four digits exactly when it is at
  least 1000, which is exactly when the timestamp is not before 1000-01-01T00:00:00Z
  (second -30610224000 of the epoch). For 42 likes and the timestamp of
  2021-07-15T10:00:00Z the name is \<open>42_2021-07-15.jpg\<close>.
\<close>

theorem photo_file_name_format:
  "(photo_file_name p = Inr name \<longrightarrow>
      (\<exists>y m d. name = str (show_int (likes_count p) @ ''_'' @ show_int y @ ''-'' @ pad2 m @ ''-''
                            @ pad2 d @ ''.jpg'')
         \<and> 1 \<le> y \<and> y \<le> 9999 \<and> 1 \<le> m \<and> m \<le> 12 \<and> 1 \<le> d \<and> d \<le> days_in_month y m
         \<and> ymd2ord y m d - ymd2ord 1970 1 1 = date p div 86400
         \<and> length (pad2 m) = 2 \<and> length (pad2 d) = 2
         \<and> digits_value (show_int y) = y \<and> digits_value (pad2 m) = m \<and> digits_value (pad2 d) = d
         \<and> (length (show_int y) = 4 \<longleftrightarrow> 1000 \<le> y)
         \<and> (1000 \<le> y \<longleftrightarrow> - 30610224000 \<le> date p)))
   \<and> photo_file_name
        \<lparr>sizes = ss, likes_count = 42,
          date = (ymd2ord 2021 7 15 - ymd2ord 1970 1 1) * 86400 + 10 * 3600\<rparr>
       = Inr (str ''42_2021-07-15.jpg'')"
proof (intro conjI impI)
  assume ok: "photo_file_name p = Inr name"
  obtain y m d where o: "ord2ymd (date p div 86400 + 719163) = (y, m, d)"
    by (cases "ord2ymd (date p div 86400 + 719163)") auto
  with ok have yr: "1 \<le> y" "y \<le> 9999"
    and nm: "name = str (show_int (likes_count p) @ ''_'' @ show_int y @ ''-'' @ pad2 m @ ''-''
                            @ pad2 d @ ''.jpg'')"
    by (auto simp: photo_file_name_def fromtimestamp_def strftime_def split: if_splits)
  from ord2ymd_correct [OF o] have c: "1 \<le> m" "m \<le> 12" "1 \<le> d" "d \<le> days_in_month y m"
    "ymd2ord y m d = date p div 86400 + 719163" by simp_all
  from c(3,4) days_in_month_le [of y m] have d31: "0 \<le> d" "d < 100" by linarith+
  from c(1,2) have m12: "0 \<le> m" "m < 100" by linarith+
  have four: "length (show_int y) = 4 \<longleftrightarrow> 1000 \<le> y"
    using yr length_show_year [of y] length_show_early_year [of y] by (cases "1000 \<le> y") auto
  have "1000 \<le> y \<longleftrightarrow> 364878 \<le> date p div 86400 + 719163"
    using year_1000_iff [OF c(1-4)] c(5) by simp
  also have "\<dots> \<longleftrightarrow> - 354285 \<le> date p div 86400" by linarith
  also have "\<dots> \<longleftrightarrow> - 30610224000 \<le> date p" by (rule timestamp_day)
  finally have since: "1000 \<le> y \<longleftrightarrow> - 30610224000 \<le> date p" .
  show "\<exists>y m d. name = str (show_int (likes_count p) @ ''_'' @ show_int y @ ''-'' @ pad2 m @ ''-''
                            @ pad2 d @ ''.jpg'')
         \<and> 1 \<le> y \<and> y \<le> 9999 \<and> 1 \<le> m \<and> m \<le> 12 \<and> 1 \<le> d \<and> d \<le> days_in_month y m
         \<and> ymd2ord y m d - ymd2ord 1970 1 1 = date p div 86400
         \<and> length (pad2 m) = 2 \<and> length (pad2 d) = 2
         \<and> digits_value (show_int y) = y \<and> digits_value (pad2 m) = m \<and> digits_value (pad2 d) = d
         \<and> (length (show_int y) = 4 \<longleftrightarrow> 1000 \<le> y)
         \<and> (1000 \<le> y \<longleftrightarrow> - 30610224000 \<le> date p)"
    using nm yr c length_pad2 [OF m12] length_pad2 [OF d31] four since
      digits_value_show_int [of y] digits_value_pad2 [OF m12(1)] digits_value_pad2 [OF d31(1)]
    by (intro exI [of _ y] exI [of _ m] exI [of _ d]) (simp add: epoch_day)
next
  show "photo_file_name
        \<lparr>sizes = ss, likes_count = 42,
          date = (ymd2ord 2021 7 15 - ymd2ord 1970 1 1) * 86400 + 10 * 3600\<rparr>
       = Inr (str ''42_2021-07-15.jpg'')"
    by (simp only: july_15 file_name_july_15)
qed

theorem photo_file_name_format_witness:
  "photo_file_name \<lparr>sizes = [], likes_count = 3, date = - 30610224001\<rparr>
     = Inr (str ''3_999-12-31.jpg'')
   \<and> (\<exists>y m d. str ''3_999-12-31.jpg''
                = str (show_int (likes_count \<lparr>sizes = [], likes_count = 3, date = - 30610224001\<rparr>)
                       @ ''_'' @ show_int y @ ''-'' @ pad2 m @ ''-'' @ pad2 d @ ''.jpg'')
         \<and> 1 \<le> y \<and> y \<le> 9999 \<and> 1 \<le> m \<and> m \<le> 12 \<and> 1 \<le> d \<and> d \<le> days_in_month y m
         \<and> ymd2ord y m d - ymd2ord 1970 1 1
             = date \<lparr>sizes = [], likes_count = 3, date = - 30610224001\<rparr> div 86400
         \<and> length (pad2 m) = 2 \<and> length (pad2 d) = 2
         \<and> digits_value (show_int y) = y \<and> digits_value (pad2 m) = m \<and> digits_value (pad2 d) = d
         \<and> (length (show_int y) = 4 \<longleftrightarrow> 1000 \<le> y)
         \<and> (1000 \<le> y \<longleftrightarrow> - 30610224000 \<le> date \<lparr>sizes = [], likes_count = 3, date = - 30610224001\<rparr>))
   \<and> photo_file_name \<lparr>sizes = [], likes_count = 7, date = 0\<rparr> = Inr (str ''7_1970-01-01.jpg'')
   \<and> (\<exists>y m d. str ''7_1970-01-01.jpg''
                = str (show_int (likes_count \<lparr>sizes = [], likes_count = 7, date = 0\<rparr>) @ ''_''
                       @ show_int y @ ''-'' @ pad2 m @ ''-'' @ pad2 d @ ''.jpg'')
         \<and> 1 \<le> y \<and> y \<le> 9999 \<and> 1 \<le> m \<and> m \<le> 12 \<and> 1 \<le> d \<and> d \<le> days_in_month y m
         \<and> ymd2ord y m d - ymd2ord 1970 1 1 = date \<lparr>sizes = [], likes_count = 7, date = 0\<rparr> div 86400
         \<and> length (pad2 m) = 2 \<and> length (pad2 d) = 2
         \<and> digits_value (show_int y) = y \<and> digits_value (pad2 m) = m \<and> digits_value (pad2 d) = d
         \<and> (length (show_int y) = 4 \<longleftrightarrow> 1000 \<le> y)
         \<and> (1000 \<le> y \<longleftrightarrow> - 30610224000 \<le> date \<lparr>sizes = [], likes_count = 7, date = 0\<rparr>))"
proof -
  have h: "photo_file_name \<lparr>sizes = [], likes_count = 7, date = 0\<rparr> = Inr (str ''7_1970-01-01.jpg'')"
    by (simp add: photo_file_name_def fromtimestamp_def ord2ymd_def Let_def DAYS_BEFORE_MONTH_def
      DAYS_IN_MONTH_def strftime_def show_int_def digits.simps digit_char_def pad2_def)
  note g = file_name_year_999 [of "[]"]
  from photo_file_name_format [of "\<lparr>sizes = [], likes_count = 7, date = 0\<rparr>" "str ''7_1970-01-01.jpg''"] h
  have a: "\<exists>y m d. str ''7_1970-01-01.jpg''
                = str (show_int (likes_count \<lparr>sizes = [], likes_count = 7, date = 0\<rparr>) @ ''_''
                       @ show_int y @ ''-'' @ pad2 m @ ''-'' @ pad2 d @ ''.jpg'')
         \<and> 1 \<le> y \<and> y \<le> 9999 \<and> 1 \<le> m \<and> m \<le> 12 \<and> 1 \<le> d \<and> d \<le> days_in_month y m
         \<and> ymd2ord y m d - ymd2ord 1970 1 1 = date \<lparr>sizes = [], likes_count = 7, date = 0\<rparr> div 86400
         \<and> length (pad2 m) = 2 \<and> length (pad2 d) = 2
         \<and> digits_value (show_int y) = y \<and> digits_value (pad2 m) = m \<and> digits_value (pad2 d) = d
         \<and> (length (show_int y) = 4 \<longleftrightarrow> 1000 \<le> y)
         \<and> (1000 \<le> y \<longleftrightarrow> - 30610224000 \<le> date \<lparr>sizes = [], likes_count = 7, date = 0\<rparr>)"
    by blast
  from photo_file_name_format [of "\<lparr>sizes = [], likes_count = 3, date = - 30610224001\<rparr>"
    "str ''3_999-12-31.jpg''"] g
  have b: "\<exists>y m d. str ''3_999-12-31.jpg''
                = str (show_int (likes_count \<lparr>sizes = [], likes_count = 3, date = - 30610224001\<rparr>)
                       @ ''_'' @ show_int y @ ''-'' @ pad2 m @ ''-'' @ pad2 d @ ''.jpg'')
         \<and> 1 \<le> y \<and> y \<le> 9999 \<and> 1 \<le> m \<and> m \<le> 12 \<and> 1 \<le> d \<and> d \<le> days_in_month y m
         \<and> ymd2ord y m d - ymd2ord 1970 1 1
             = date \<lparr>sizes = [], likes_count = 3, date = - 30610224001\<rparr> div 86400
         \<and> length (pad2 m) = 2 \<and> length (pad2 d) = 2
         \<and> digits_value (show_int y) = y \<and> digits_value (pad2 m) = m \<and> digits_value (pad2 d) = d
         \<and> (length (show_int y) = 4 \<longleftrightarrow> 1000 \<le> y)
         \<and> (1000 \<le> y \<longleftrightarrow> - 30610224000 \<le> date \<lparr>sizes = [], likes_count = 3, date = - 30610224001\<rparr>)"
    by blast
  from g b h a show ?thesis by (intro conjI)
qed
section \<open>Rules for the effects\<close>

lemma io_bind_Inr_iff:
  "io_bind m f w = (Inr b, w') \<longleftrightarrow> (\<exists>a w1. m w = (Inr a, w1) \<and> f a w1 = (Inr b, w'))"
  by (auto simp: io_bind_def split: prod.splits sum.splits)

lemma io_bind_Inl_iff:
  "io_bind m f w = (Inl e, w') \<longleftrightarrow>
     m w = (Inl e, w') \<or> (\<exists>a w1. m w = (Inr a, w1) \<and> f a w1 = (Inl e, w'))"
  by (auto simp: io_bind_def split: prod.splits sum.splits)

lemma lift_iff: "lift r w = (x, w') \<longleftrightarrow> r = x \<and> w' = w"
  by (auto simp: lift_def)

lemma io_return_iff: "io_return a w = (x, w') \<longleftrightarrow> x = Inr a \<and> w' = w"
  by (auto simp: io_return_def)

lemma send_Inr_iff:
  "send nt rq w = (Inr r, w') \<longleftrightarrow>
     answer nt (trace w) rq = Some r \<and> w' = w\<lparr>trace := trace w @ [rq]\<rparr>"
  by (auto simp: send_def split: option.splits)

lemma send_Inl_iff:
  "send nt rq w = (Inl e, w') \<longleftrightarrow>
     answer nt (trace w) rq = None \<and> e = ConnectionError \<and> w' = w\<lparr>trace := trace w @ [rq]\<rparr>"
  by (auto simp: send_def split: option.splits)

lemma raise_for_status_Inr_iff:
  "raise_for_status r = Inr u \<longleftrightarrow> \<not> (400 \<le> status_code r \<and> status_code r < 600)"
  by (auto simp: raise_for_status_def)

lemma raise_for_status_Inl_iff:
  "raise_for_status r = Inl e \<longleftrightarrow> 400 \<le> status_code r \<and> status_code r < 600 \<and> e = HTTPError (status_code r)"
  by (auto simp: raise_for_status_def)

lemma write_file_iff:
  "write_file name d w = (x, w') \<longleftrightarrow> x = Inr () \<and> w' = w\<lparr>files := (files w)(name \<mapsto> d)\<rparr>"
  by (auto simp: write_file_def)

lemma read_file_Inr_iff:
  "read_file name w = (Inr d, w') \<longleftrightarrow> files w name = Some d \<and> w' = w"
  by (auto simp: read_file_def split: option.splits)

lemma read_file_Inl_iff:
  "read_file name w = (Inl e, w') \<longleftrightarrow> files w name = None \<and> e = OSError \<and> w' = w"
  by (auto simp: read_file_def split: option.splits)

lemma os_remove_Inr_iff:
  "os_remove name w = (Inr u, w') \<longleftrightarrow>
     files w name \<noteq> None \<and> w' = w\<lparr>files := (files w)(name := None)\<rparr>"
  by (auto simp: os_remove_def split: option.splits)

lemma os_remove_Inl_iff:
  "os_remove name w = (Inl e, w') \<longleftrightarrow> files w name = None \<and> e = OSError \<and> w' = w"
  by (auto simp: os_remove_def split: option.splits)

lemmas io_Inr = io_bind_Inr_iff lift_iff io_return_iff send_Inr_iff raise_for_status_Inr_iff
  write_file_iff read_file_Inr_iff os_remove_Inr_iff

lemmas io_Inl = io_bind_Inl_iff io_bind_Inr_iff lift_iff io_return_iff send_Inr_iff send_Inl_iff
  raise_for_status_Inr_iff raise_for_status_Inl_iff write_file_iff read_file_Inr_iff
  read_file_Inl_iff os_remove_Inr_iff os_remove_Inl_iff

lemma requests_get_Inr_iff:
  "requests_get nt u w = (Inr r, w') \<longleftrightarrow>
     usable nt u \<and> answer nt (trace w) (GET u [] []) = Some r
     \<and> w' = w\<lparr>trace := trace w @ [GET u [] []]\<rparr>"
  by (auto simp: requests_get_def io_Inr)

lemma requests_get_Inl: "requests_get nt u w = (Inl e, w') \<Longrightarrow> e = ConnectionError \<or> e = InvalidURL"
  by (auto simp: requests_get_def io_Inl split: if_splits)

lemma requests_put_Inr_iff:
  "requests_put nt href payload w = (Inr r, w') \<longleftrightarrow>
     (\<exists>u. href = JStr u \<and> usable nt u \<and> answer nt (trace w) (PUT u payload) = Some r
          \<and> w' = w\<lparr>trace := trace w @ [PUT u payload]\<rparr>)"
  by (cases href) (auto simp: requests_put_def io_Inr)

lemma py_get_Inl: "py_get j k d = Inl e \<Longrightarrow> e = AttributeError"
  by (cases j) (auto simp: py_get_def)

lemma response_json_Inl: "response_json r = Inl e \<Longrightarrow> e = JSONDecodeError"
  by (auto simp: response_json_def split: option.splits)

lemma requests_put_Inl: "requests_put nt href payload w = (Inl e, w') \<Longrightarrow> e = ConnectionError \<or> e = InvalidURL"
  by (cases href) (auto simp: requests_put_def io_Inl split: if_splits)

lemma get_upload_link_Inl:
  "get_upload_link nt tok path w = (Inl e, w') \<Longrightarrow> e \<noteq> MaxEmptySequence"
  by (auto simp: get_upload_link_def io_Inl dest!: py_get_Inl response_json_Inl)

lemma upload_file_Inl:
  "upload_file nt tok fp fn w = (Inl e, w') \<Longrightarrow> e \<noteq> MaxEmptySequence"
  by (auto simp: upload_file_def io_Inl dest!: get_upload_link_Inl requests_put_Inl)

lemma photo_file_name_Inl: "photo_file_name p = Inl e \<Longrightarrow> e = YearOutOfRange"
  by (auto simp: photo_file_name_def fromtimestamp_def split: sum.splits prod.splits if_splits)

lemma process_photo_Inl:
  "process_photo nt tok p info w = (Inl e, w') \<Longrightarrow> sizes p \<noteq> [] \<Longrightarrow> e \<noteq> MaxEmptySequence"
  by (auto simp: process_photo_def io_Inl get_max_size_photo_def py_max_def split: list.splits
      dest!: upload_file_Inl photo_file_name_Inl requests_get_Inl)

lemma download_loop_Inl:
  "download_loop nt tok ps info w = (Inl e, w') \<Longrightarrow> \<forall>p \<in> set ps. sizes p \<noteq> [] \<Longrightarrow> e \<noteq> MaxEmptySequence"
proof (induction ps arbitrary: info w)
  case Nil
  then show ?case by (simp add: io_return_iff)
next
  case (Cons p ps)
  from Cons.prems(1) show ?case
    using Cons.IH Cons.prems(2) process_photo_Inl [of nt tok p info w e w']
    by (auto simp: io_bind_Inl_iff)
qed

section \<open>The manifest of an error-free run\<close>

lemma get_upload_link_Inr:
  assumes "get_upload_link nt tok path w = (Inr href, w')"
  shows "\<exists>l j. answer nt (trace w) (upload_link_request tok path) = Some l
           \<and> \<not> (400 \<le> status_code l \<and> status_code l < 600)
           \<and> response_json l = Inr j \<and> py_get j (str ''href'') JNull = Inr href
           \<and> w' = w\<lparr>trace := trace w @ [upload_link_request tok path]\<rparr>"
  using assms by (auto simp: get_upload_link_def io_Inr)

lemma upload_file_Inr:
  assumes "upload_file nt tok fp fn w = (Inr x, w')"
  shows "\<exists>payload l j u r1 r2. files w fp = Some payload
           \<and> answer nt (trace w) (upload_link_request tok (str ''vk_photos/'' @ fn)) = Some l
           \<and> \<not> (400 \<le> status_code l \<and> status_code l < 600)
           \<and> response_json l = Inr j \<and> py_get j (str ''href'') JNull = Inr (JStr u)
           \<and> usable nt u
           \<and> answer nt (trace w @ [upload_link_request tok (str ''vk_photos/'' @ fn)])
                (PUT u payload) = Some r1
           \<and> answer nt (trace w @ [upload_link_request tok (str ''vk_photos/'' @ fn), PUT u payload])
                (PUT u []) = Some r2
           \<and> \<not> (400 \<le> status_code r2 \<and> status_code r2 < 600)
           \<and> trace w' = trace w @ [upload_link_request tok (str ''vk_photos/'' @ fn),
                                    PUT u payload, PUT u []]
           \<and> files w' = files w"
proof -
  from assms obtain href w1 payload r1 w2 r2 w3 where
    l: "get_upload_link nt tok (str ''vk_photos/'' @ fn) w = (Inr href, w1)"
    and f: "files w1 fp = Some payload"
    and p1: "requests_put nt href payload w1 = (Inr r1, w2)"
    and p2: "requests_put nt href [] w2 = (Inr r2, w3)"
    and st: "\<not> (400 \<le> status_code r2 \<and> status_code r2 < 600)"
    and w': "w' = w3"
    by (auto simp: upload_file_def io_bind_Inr_iff lift_iff read_file_Inr_iff
        raise_for_status_Inr_iff)
  from get_upload_link_Inr [OF l] obtain l0 j where
    g: "answer nt (trace w) (upload_link_request tok (str ''vk_photos/'' @ fn)) = Some l0"
       "\<not> (400 \<le> status_code l0 \<and> status_code l0 < 600)"
       "response_json l0 = Inr j" "py_get j (str ''href'') JNull = Inr href"
       "w1 = w\<lparr>trace := trace w @ [upload_link_request tok (str ''vk_photos/'' @ fn)]\<rparr>"
    by blast
  from p1 obtain u where
    u: "href = JStr u" "usable nt u" "answer nt (trace w1) (PUT u payload) = Some r1"
       "w2 = w1\<lparr>trace := trace w1 @ [PUT u payload]\<rparr>"
    by (auto simp: requests_put_Inr_iff)
  from p2 u(1) have
    v: "answer nt (trace w2) (PUT u []) = Some r2" "w3 = w2\<lparr>trace := trace w2 @ [PUT u []]\<rparr>"
    by (auto simp: requests_put_Inr_iff)
  show ?thesis
    using f g u v st w'
    by (intro exI [of _ payload] exI [of _ l0] exI [of _ j] exI [of _ u] exI [of _ r1]
        exI [of _ r2]) simp
qed

text \<open>
  What one pass of the loop has done when it ends without an error, after the requests
  \<open>hist\<close>: the requests \<open>chunk\<close> it has sent, the answers it has got, and the entry \<open>e\<close>
  it has appended.
\<close>

lemma process_photo_Inr:
  assumes "process_photo nt tok p info w = (Inr info', w')"
  shows "\<exists>chunk e. trace w' = trace w @ chunk \<and> info' = info @ [e]
           \<and> (\<exists>v name r l j u r1 r2.
                 get_max_size_photo p = Inr v \<and> photo_file_name p = Inr name
                 \<and> chunk = [GET (url v) [] [],
                       upload_link_request tok (str ''vk_photos/'' @ name),
                       PUT u (content r), PUT u []]
                 \<and> usable nt (url v)
                 \<and> answer nt (trace w) (GET (url v) [] []) = Some r
                 \<and> \<not> (400 \<le> status_code r \<and> status_code r < 600)
                 \<and> answer nt (trace w @ [GET (url v) [] []]) (upload_link_request tok (str ''vk_photos/'' @ name)) = Some l
                 \<and> \<not> (400 \<le> status_code l \<and> status_code l < 600)
                 \<and> response_json l = Inr j \<and> py_get j (str ''href'') JNull = Inr (JStr u)
                 \<and> usable nt u
                 \<and> answer nt (trace w @ [GET (url v) [] [], upload_link_request tok (str ''vk_photos/'' @ name)]) (PUT u (content r)) = Some r1
                 \<and> answer nt (trace w @ [GET (url v) [] [], upload_link_request tok (str ''vk_photos/'' @ name), PUT u (content r)]) (PUT u []) = Some r2
                 \<and> \<not> (400 \<le> status_code r2 \<and> status_code r2 < 600)
                 \<and> e = \<lparr>file_name = name, size_label = type v\<rparr>)"
proof -
  from assms obtain v name r w1 w2 w3 where
    v: "get_max_size_photo p = Inr v" and n: "photo_file_name p = Inr name"
    and g: "requests_get nt (url v) w = (Inr r, w1)"
    and st: "\<not> (400 \<le> status_code r \<and> status_code r < 600)"
    and wf: "w2 = w1\<lparr>files := (files w1)(name \<mapsto> content r)\<rparr>"
    and up: "upload_file nt tok name name w2 = (Inr (), w3)"
    and rm: "trace w' = trace w3"
    and i: "info' = info @ [\<lparr>file_name = name, size_label = type v\<rparr>]"
    by (auto simp: process_photo_def io_Inr)
  from g have g': "usable nt (url v)" "answer nt (trace w) (GET (url v) [] []) = Some r"
    "trace w1 = trace w @ [GET (url v) [] []]"
    by (auto simp: requests_get_Inr_iff)
  from wf g' have t2: "trace w2 = trace w @ [GET (url v) [] []]" "files w2 name = Some (content r)"
    by simp_all
  from upload_file_Inr [OF up] t2 obtain l j u r1 r2 where
    u: "answer nt (trace w @ [GET (url v) [] []])
          (upload_link_request tok (str ''vk_photos/'' @ name)) = Some l"
       "\<not> (400 \<le> status_code l \<and> status_code l < 600)"
       "response_json l = Inr j" "py_get j (str ''href'') JNull = Inr (JStr u)"
       "usable nt u"
       "answer nt (trace w @ [GET (url v) [] [], upload_link_request tok (str ''vk_photos/'' @ name)])
          (PUT u (content r)) = Some r1"
       "answer nt (trace w @ [GET (url v) [] [], upload_link_request tok (str ''vk_photos/'' @ name),
          PUT u (content r)]) (PUT u []) = Some r2"
       "\<not> (400 \<le> status_code r2 \<and> status_code r2 < 600)"
       "trace w3 = trace w @ [GET (url v) [] [], upload_link_request tok (str ''vk_photos/'' @ name),
                               PUT u (content r), PUT u []]"
    by auto
  let ?chunk = "[GET (url v) [] [], upload_link_request tok (str ''vk_photos/'' @ name),
                 PUT u (content r), PUT u []]"
  let ?e = "\<lparr>file_name = name, size_label = type v\<rparr>"
  have inner: "\<exists>v name r l j u r1 r2.
                 get_max_size_photo p = Inr v \<and> photo_file_name p = Inr name
                 \<and> ?chunk = [GET (url v) [] [],
                       upload_link_request tok (str ''vk_photos/'' @ name),
                       PUT u (content r), PUT u []]
                 \<and> usable nt (url v)
                 \<and> answer nt (trace w) (GET (url v) [] []) = Some r
                 \<and> \<not> (400 \<le> status_code r \<and> status_code r < 600)
                 \<and> answer nt (trace w @ [GET (url v) [] []]) (upload_link_request tok (str ''vk_photos/'' @ name)) = Some l
                 \<and> \<not> (400 \<le> status_code l \<and> status_code l < 600)
                 \<and> response_json l = Inr j \<and> py_get j (str ''href'') JNull = Inr (JStr u)
                 \<and> usable nt u
                 \<and> answer nt (trace w @ [GET (url v) [] [], upload_link_request tok (str ''vk_photos/'' @ name)]) (PUT u (content r)) = Some r1
                 \<and> answer nt (trace w @ [GET (url v) [] [], upload_link_request tok (str ''vk_photos/'' @ name), PUT u (content r)]) (PUT u []) = Some r2
                 \<and> \<not> (400 \<le> status_code r2 \<and> status_code r2 < 600)
                 \<and> ?e = \<lparr>file_name = name, size_label = type v\<rparr>"
    using v n g' st u
    by (intro exI [of _ v] exI [of _ name] exI [of _ r] exI [of _ l] exI [of _ j] exI [of _ u]
        exI [of _ r1] exI [of _ r2]) simp
  have tr: "trace w' = trace w @ ?chunk" using rm u(9) by simp
  show ?thesis
  proof (rule exI [of _ ?chunk], rule exI [of _ ?e], intro conjI)
    show "trace w' = trace w @ ?chunk" by (rule tr)
    show "info' = info @ [?e]" by (rule i)
    show "\<exists>v name r l j u r1 r2.
                 get_max_size_photo p = Inr v \<and> photo_file_name p = Inr name
                 \<and> ?chunk = [GET (url v) [] [],
                       upload_link_request tok (str ''vk_photos/'' @ name),
                       PUT u (content r), PUT u []]
                 \<and> usable nt (url v)
                 \<and> answer nt (trace w) (GET (url v) [] []) = Some r
                 \<and> \<not> (400 \<le> status_code r \<and> status_code r < 600)
                 \<and> answer nt (trace w @ [GET (url v) [] []]) (upload_link_request tok (str ''vk_photos/'' @ name)) = Some l
                 \<and> \<not> (400 \<le> status_code l \<and> status_code l < 600)
                 \<and> response_json l = Inr j \<and> py_get j (str ''href'') JNull = Inr (JStr u)
                 \<and> usable nt u
                 \<and> answer nt (trace w @ [GET (url v) [] [], upload_link_request tok (str ''vk_photos/'' @ name)]) (PUT u (content r)) = Some r1
                 \<and> answer nt (trace w @ [GET (url v) [] [], upload_link_request tok (str ''vk_photos/'' @ name), PUT u (content r)]) (PUT u []) = Some r2
                 \<and> \<not> (400 \<le> status_code r2 \<and> status_code r2 < 600)
                 \<and> ?e = \<lparr>file_name = name, size_label = type v\<rparr>"
      by (rule inner)
  qed
qed

lemma download_loop_rounds:
  assumes step: "\<And>p info w info' w'. process_photo nt tok p info w = (Inr info', w') \<Longrightarrow>
                   \<exists>chunk e. trace w' = trace w @ chunk \<and> info' = info @ [e] \<and> P (trace w) p chunk e"
      and loop: "download_loop nt tok ps info w = (Inr info', w')"
  shows "\<exists>entries chunks. info' = info @ entries \<and> length entries = length ps
           \<and> length chunks = length ps \<and> trace w' = trace w @ concat chunks
           \<and> (\<forall>i < length ps. P (trace w @ concat (take i chunks)) (ps ! i) (chunks ! i) (entries ! i))"
  using loop
proof (induction ps arbitrary: info w)
  case Nil
  then show ?case by (simp add: io_return_iff)
next
  case (Cons p ps)
  from Cons.prems obtain info1 w1 where
    first: "process_photo nt tok p info w = (Inr info1, w1)"
    and rest: "download_loop nt tok ps info1 w1 = (Inr info', w')"
    by (auto simp: io_bind_Inr_iff)
  from step [OF first] obtain c e where
    p: "trace w1 = trace w @ c" "info1 = info @ [e]" "P (trace w) p c e"
    by blast
  from Cons.IH [OF rest] obtain entries chunks where
    ih: "info' = info1 @ entries" "length entries = length ps" "length chunks = length ps"
        "trace w' = trace w1 @ concat chunks"
        "\<forall>i < length ps. P (trace w1 @ concat (take i chunks)) (ps ! i) (chunks ! i) (entries ! i)"
    by blast
  have "\<forall>i < length (p # ps).
          P (trace w @ concat (take i (c # chunks))) ((p # ps) ! i) ((c # chunks) ! i) ((e # entries) ! i)"
  proof (intro allI impI)
    fix i assume i: "i < length (p # ps)"
    show "P (trace w @ concat (take i (c # chunks))) ((p # ps) ! i) ((c # chunks) ! i) ((e # entries) ! i)"
    proof (cases i)
      case 0
      with p(3) show ?thesis by simp
    next
      case (Suc k)
      with i have "k < length ps" by simp
      with ih(5) have "P (trace w1 @ concat (take k chunks)) (ps ! k) (chunks ! k) (entries ! k)"
        by blast
      with Suc p(1) show ?thesis by simp
    qed
  qed
  moreover have "info' = info @ (e # entries)" using ih(1) p(2) by simp
  moreover have "trace w' = trace w @ concat (c # chunks)" using ih(4) p(1) by simp
  moreover have "length (e # entries) = length (p # ps)" "length (c # chunks) = length (p # ps)"
    using ih(2,3) by simp_all
  ultimately show ?case by blast
qed

lemma top_photos_selected:
  assumes "top_photos photos = Inr selected"
  shows "selected = take 5 (sort_desc max_resolution photos)"
proof -
  have "\<forall>p \<in> set photos. sizes p \<noteq> []"
  proof (rule ccontr)
    assume "\<not> (\<forall>p \<in> set photos. sizes p \<noteq> [])"
    then have "\<exists>p \<in> set photos. sizes p = []" by simp
    from photos_with_sizes_Inl [OF this] assms show False
      by (simp add: top_photos_def)
  qed
  from top_photos_Inr [OF this] assms show ?thesis by simp
qed

text \<open>
  C4. A run that ends without an error has fetched a photo sequence, and \<open>top\<close>, the K
  photos that the selection step yields for that sequence, are the photos it has
  processed. The manifest file holds the JSON text of exactly K entries, and the requests
  sent after the fetch are K groups, entry \<open>i\<close> and group \<open>i\<close> belonging to the photo at
  place \<open>i\<close> of \<open>top\<close>. The group is the download of the photo's maximal variant, the
  destination request for \<open>vk_photos/\<close> followed by the derived file name, and two
  transfers to the destination that the storage service returned. The download was
  answered with a status that is not 4xx or 5xx, and the first transfer carried the bytes
  of that answer; the transfer was answered, with a status the program does not look at.
  The second transfer, with no bytes left to send, was answered with a status that is not
  4xx or 5xx. The entry has the derived file name and, as its size, the label of the
  variant whose bytes were transferred.
\<close>

theorem error_free_run_manifest:
  assumes "fst (run vk nt yandex_token user_id w) = Inr ()"
  shows "\<exists>photos w1 top entries chunks.
           vk user_id w = (Inr photos, w1) \<and> top_photos photos = Inr top
           \<and> top = take 5 (sort_desc max_resolution photos)
           \<and> files (snd (run vk nt yandex_token user_id w)) manifest_name
               = Some (dumps 0 (JArr (map entry_json entries)))
           \<and> length entries = length top \<and> length chunks = length top
           \<and> trace (snd (run vk nt yandex_token user_id w)) = trace w1 @ concat chunks
           \<and> (\<forall>i < length top. \<exists>v name r l j u r1 r2.
                 get_max_size_photo (top ! i) = Inr v \<and> photo_file_name (top ! i) = Inr name
                 \<and> chunks ! i = [GET (url v) [] [],
                       upload_link_request yandex_token (str ''vk_photos/'' @ name),
                       PUT u (content r), PUT u []]
                 \<and> usable nt (url v)
                 \<and> answer nt (trace w1 @ concat (take i chunks)) (GET (url v) [] []) = Some r
                 \<and> \<not> (400 \<le> status_code r \<and> status_code r < 600)
                 \<and> answer nt (trace w1 @ concat (take i chunks) @ [GET (url v) [] []])
                     (upload_link_request yandex_token (str ''vk_photos/'' @ name)) = Some l
                 \<and> \<not> (400 \<le> status_code l \<and> status_code l < 600)
                 \<and> response_json l = Inr j \<and> py_get j (str ''href'') JNull = Inr (JStr u)
                 \<and> usable nt u
                 \<and> answer nt (trace w1 @ concat (take i chunks) @ [GET (url v) [] [],
                        upload_link_request yandex_token (str ''vk_photos/'' @ name)])
                     (PUT u (content r)) = Some r1
                 \<and> answer nt (trace w1 @ concat (take i chunks) @ [GET (url v) [] [],
                        upload_link_request yandex_token (str ''vk_photos/'' @ name),
                        PUT u (content r)])
                     (PUT u []) = Some r2
                 \<and> \<not> (400 \<le> status_code r2 \<and> status_code r2 < 600)
                 \<and> entries ! i = \<lparr>file_name = name, size_label = type v\<rparr>)"
proof -
  obtain w' where run: "run vk nt yandex_token user_id w = (Inr (), w')"
    using assms by (cases "run vk nt yandex_token user_id w") auto
  then obtain photos w1 top info w2 where
    g: "vk user_id w = (Inr photos, w1)"
    and tp: "top_photos photos = Inr top"
    and dl: "download_loop nt yandex_token (take 5 top) [] w1 = (Inr info, w2)"
    and sv: "save_photos_info info manifest_name w2 = (Inr (), w')"
    by (auto simp: run_def backup_def download_and_upload_photos_def io_bind_Inr_iff lift_iff)
  note sel = top_photos_selected [OF tp]
  then have t5: "take 5 top = top" by simp
  from download_loop_rounds [where P = "\<lambda>hist p chunk e. \<exists>v name r l j u r1 r2.
                 get_max_size_photo p = Inr v \<and> photo_file_name p = Inr name
                 \<and> chunk = [GET (url v) [] [],
                       upload_link_request yandex_token (str ''vk_photos/'' @ name),
                       PUT u (content r), PUT u []]
                 \<and> usable nt (url v)
                 \<and> answer nt hist (GET (url v) [] []) = Some r
                 \<and> \<not> (400 \<le> status_code r \<and> status_code r < 600)
                 \<and> answer nt (hist @ [GET (url v) [] []]) (upload_link_request yandex_token (str ''vk_photos/'' @ name)) = Some l
                 \<and> \<not> (400 \<le> status_code l \<and> status_code l < 600)
                 \<and> response_json l = Inr j \<and> py_get j (str ''href'') JNull = Inr (JStr u)
                 \<and> usable nt u
                 \<and> answer nt (hist @ [GET (url v) [] [], upload_link_request yandex_token (str ''vk_photos/'' @ name)]) (PUT u (content r)) = Some r1
                 \<and> answer nt (hist @ [GET (url v) [] [], upload_link_request yandex_token (str ''vk_photos/'' @ name), PUT u (content r)]) (PUT u []) = Some r2
                 \<and> \<not> (400 \<le> status_code r2 \<and> status_code r2 < 600)
                 \<and> e = \<lparr>file_name = name, size_label = type v\<rparr>",
         OF process_photo_Inr dl [unfolded t5]]
  obtain entries chunks where
    e: "info = entries" "length entries = length top" "length chunks = length top"
       "trace w2 = trace w1 @ concat chunks"
       "\<forall>i < length top. \<exists>v name r l j u r1 r2.
                 get_max_size_photo (top ! i) = Inr v \<and> photo_file_name (top ! i) = Inr name
                 \<and> chunks ! i = [GET (url v) [] [],
                       upload_link_request yandex_token (str ''vk_photos/'' @ name),
                       PUT u (content r), PUT u []]
                 \<and> usable nt (url v)
                 \<and> answer nt (trace w1 @ concat (take i chunks)) (GET (url v) [] []) = Some r
                 \<and> \<not> (400 \<le> status_code r \<and> status_code r < 600)
                 \<and> answer nt ((trace w1 @ concat (take i chunks)) @ [GET (url v) [] []])
                     (upload_link_request yandex_token (str ''vk_photos/'' @ name)) = Some l
                 \<and> \<not> (400 \<le> status_code l \<and> status_code l < 600)
                 \<and> response_json l = Inr j \<and> py_get j (str ''href'') JNull = Inr (JStr u)
                 \<and> usable nt u
                 \<and> answer nt ((trace w1 @ concat (take i chunks)) @ [GET (url v) [] [],
                        upload_link_request yandex_token (str ''vk_photos/'' @ name)])
                     (PUT u (content r)) = Some r1
                 \<and> answer nt ((trace w1 @ concat (take i chunks)) @ [GET (url v) [] [],
                        upload_link_request yandex_token (str ''vk_photos/'' @ name),
                        PUT u (content r)])
                     (PUT u []) = Some r2
                 \<and> \<not> (400 \<le> status_code r2 \<and> status_code r2 < 600)
                 \<and> entries ! i = \<lparr>file_name = name, size_label = type v\<rparr>"
    by auto
  from sv have w': "files w' manifest_name = Some (dumps 0 (JArr (map entry_json info)))"
    "trace w' = trace w2"
    by (auto simp: save_photos_info_def write_file_iff)
  have fin: "files (snd (run vk nt yandex_token user_id w)) manifest_name
               = Some (dumps 0 (JArr (map entry_json entries)))"
    "trace (snd (run vk nt yandex_token user_id w)) = trace w1 @ concat chunks"
    using run w' e(1,4) by simp_all
  show ?thesis
    using g tp sel fin e(2,3) e(5) [unfolded append_assoc]
    by (intro exI [of _ photos] exI [of _ w1] exI [of _ top] exI [of _ entries] exI [of _ chunks]
        conjI)
qed

lemmas run_eval = run_def vk_source_def get_photos_def io_bind_def send_def services_def
  services_answer_def vk_request_def str_def lift_def ok_json_def raise_for_status_def
  response_json_def py_get_def dict_get_def backup_def top_photos_def get_max_size_photo_def
  py_max_def area_def download_and_upload_photos_def process_photo_def requests_get_def
  empty_world_def photo_file_name_def fromtimestamp_def ord2ymd_def Let_def
  DAYS_BEFORE_MONTH_def DAYS_IN_MONTH_def write_file_def upload_file_def get_upload_link_def
  upload_link_request_def read_file_def requests_put_def puts_so_far_def os_remove_def
  io_return_def save_photos_info_def always_201_def first_500_def manifest_name_def
  photo_of_def seven_photos_def tied_photo_def strftime_def show_int_def digits.simps
  digit_char_def pad2_def

lemma run_seven_photos:
  "fst (run (vk_source (services (map json_of_photo seven_photos) always_201) (str ''vk'') seven_photos)
          (services (map json_of_photo seven_photos) always_201) (str ''yd'') (str ''1'') empty_world)
     = Inr ()"
  "files (snd (run (vk_source (services (map json_of_photo seven_photos) always_201) (str ''vk'') seven_photos)
          (services (map json_of_photo seven_photos) always_201) (str ''yd'') (str ''1'') empty_world))
     manifest_name
     = Some (dumps 0 (JArr [entry_json \<lparr>file_name = str ''42_2021-07-15.jpg'', size_label = str ''w''\<rparr>,
                            entry_json \<lparr>file_name = str ''2_1970-01-02.jpg'', size_label = str ''b''\<rparr>,
                            entry_json \<lparr>file_name = str ''6_1970-01-06.jpg'', size_label = str ''f''\<rparr>,
                            entry_json \<lparr>file_name = str ''8_1970-01-02.jpg'', size_label = str ''y''\<rparr>,
                            entry_json \<lparr>file_name = str ''3_1970-01-03.jpg'', size_label = str ''c''\<rparr>]))"
  by (simp_all add: run_eval)

theorem error_free_run_manifest_witness:
  "fst (run (vk_source (services (map json_of_photo seven_photos) always_201) (str ''vk'') seven_photos)
          (services (map json_of_photo seven_photos) always_201) (str ''yd'') (str ''1'') empty_world)
     = Inr ()
   \<and> files (snd (run (vk_source (services (map json_of_photo seven_photos) always_201) (str ''vk'') seven_photos)
          (services (map json_of_photo seven_photos) always_201) (str ''yd'') (str ''1'') empty_world))
       manifest_name
       = Some (dumps 0 (JArr [entry_json \<lparr>file_name = str ''42_2021-07-15.jpg'', size_label = str ''w''\<rparr>,
                              entry_json \<lparr>file_name = str ''2_1970-01-02.jpg'', size_label = str ''b''\<rparr>,
                              entry_json \<lparr>file_name = str ''6_1970-01-06.jpg'', size_label = str ''f''\<rparr>,
                              entry_json \<lparr>file_name = str ''8_1970-01-02.jpg'', size_label = str ''y''\<rparr>,
                              entry_json \<lparr>file_name = str ''3_1970-01-03.jpg'', size_label = str ''c''\<rparr>]))
   \<and> (\<exists>photos w1 top entries chunks.
           vk_source (services (map json_of_photo seven_photos) always_201) (str ''vk'') seven_photos
             (str ''1'') empty_world = (Inr photos, w1)
           \<and> top_photos photos = Inr top
           \<and> top = take 5 (sort_desc max_resolution photos)
           \<and> files (snd (run (vk_source (services (map json_of_photo seven_photos) always_201) (str ''vk'')
                                  seven_photos)
                           (services (map json_of_photo seven_photos) always_201) (str ''yd'') (str ''1'')
                           empty_world)) manifest_name
               = Some (dumps 0 (JArr (map entry_json entries)))
           \<and> length entries = length top \<and> length chunks = length top
           \<and> trace (snd (run (vk_source (services (map json_of_photo seven_photos) always_201) (str ''vk'')
                                  seven_photos)
                           (services (map json_of_photo seven_photos) always_201) (str ''yd'') (str ''1'')
                           empty_world)) = trace w1 @ concat chunks
           \<and> (\<forall>i < length top. \<exists>v name r l j u r1 r2.
                 get_max_size_photo (top ! i) = Inr v \<and> photo_file_name (top ! i) = Inr name
                 \<and> chunks ! i = [GET (url v) [] [],
                       upload_link_request (str ''yd'') (str ''vk_photos/'' @ name),
                       PUT u (content r), PUT u []]
                 \<and> usable (services (map json_of_photo seven_photos) always_201) (url v)
                 \<and> answer (services (map json_of_photo seven_photos) always_201)
                       (trace w1 @ concat (take i chunks)) (GET (url v) [] []) = Some r
                 \<and> \<not> (400 \<le> status_code r \<and> status_code r < 600)
                 \<and> answer (services (map json_of_photo seven_photos) always_201)
                       (trace w1 @ concat (take i chunks) @ [GET (url v) [] []])
                       (upload_link_request (str ''yd'') (str ''vk_photos/'' @ name)) = Some l
                 \<and> \<not> (400 \<le> status_code l \<and> status_code l < 600)
                 \<and> response_json l = Inr j \<and> py_get j (str ''href'') JNull = Inr (JStr u)
                 \<and> usable (services (map json_of_photo seven_photos) always_201) u
                 \<and> answer (services (map json_of_photo seven_photos) always_201)
                       (trace w1 @ concat (take i chunks) @ [GET (url v) [] [],
                          upload_link_request (str ''yd'') (str ''vk_photos/'' @ name)])
                       (PUT u (content r)) = Some r1
                 \<and> answer (services (map json_of_photo seven_photos) always_201)
                       (trace w1 @ concat (take i chunks) @ [GET (url v) [] [],
                          upload_link_request (str ''yd'') (str ''vk_photos/'' @ name),
                          PUT u (content r)])
                       (PUT u []) = Some r2
                 \<and> \<not> (400 \<le> status_code r2 \<and> status_code r2 < 600)
                 \<and> entries ! i = \<lparr>file_name = name, size_label = type v\<rparr>))"
proof -
  note t = error_free_run_manifest [OF run_seven_photos(1)]
  from run_seven_photos(1) run_seven_photos(2) t show ?thesis by (intro conjI)
qed
section \<open>Uploads without a destination\<close>

text \<open>
  C6. For every upload of an existing local file: when the destination request fails
  (no response, or a 4xx or 5xx status) or its answer carries no write destination, the
  upload ends with a RemoteServiceError, the destination request is the only request it
  has issued, no transfer has been sent, and the local files are as they were.
\<close>

theorem upload_fails_fast_without_destination:
  assumes "no_destination (answer nt (trace w) (upload_link_request token (str ''vk_photos/'' @ name)))"
      and "files w path \<noteq> None"
  shows "\<exists>e. fst (upload_file nt token path name w) = Inl e \<and> remote_service_error e
           \<and> trace (snd (upload_file nt token path name w))
               = trace w @ [upload_link_request token (str ''vk_photos/'' @ name)]
           \<and> (\<forall>u d. PUT u d \<notin> set (drop (length (trace w))
                                      (trace (snd (upload_file nt token path name w)))))
           \<and> files (snd (upload_file nt token path name w)) = files w"
proof -
  let ?rq = "upload_link_request token (str ''vk_photos/'' @ name)"
  have notput: "\<And>u d. ?rq \<noteq> PUT u d" "\<And>u d. PUT u d \<noteq> ?rq"
    by (simp_all add: upload_link_request_def)
  show ?thesis
  proof (cases "answer nt (trace w) ?rq")
    case None
    then show ?thesis using notput
      by (simp add: upload_file_def get_upload_link_def io_bind_def send_def remote_service_error_def)
  next
    case (Some r)
    show ?thesis
    proof (cases "400 \<le> status_code r \<and> status_code r < 600")
      case True
      with Some show ?thesis using notput
        by (simp add: upload_file_def get_upload_link_def io_bind_def send_def lift_def
            raise_for_status_def remote_service_error_def)
    next
      case False
      show ?thesis
      proof (cases "json_body r")
        case None
        with Some False show ?thesis using notput
          by (simp add: upload_file_def get_upload_link_def io_bind_def send_def lift_def
            raise_for_status_def response_json_def remote_service_error_def)
      next
        case (Some j)
        with assms(1) \<open>answer nt (trace w) ?rq = Some r\<close> False have nh: "\<not> has_href j"
          by (simp add: no_destination_def)
        from assms(2) obtain d where d: "files w path = Some d" by auto
        show ?thesis
        proof (cases "\<exists>kvs. j = JObj kvs")
          case False
          then have "py_get j (str ''href'') JNull = Inl AttributeError"
            by (cases j) (auto simp: py_get_def)
          with Some \<open>answer nt (trace w) ?rq = Some r\<close> \<open>\<not> (400 \<le> status_code r \<and> status_code r < 600)\<close>
          show ?thesis using notput
            by (simp add: upload_file_def get_upload_link_def io_bind_def send_def lift_def
              raise_for_status_def response_json_def remote_service_error_def)
        next
          case True
          then obtain kvs where kvs: "j = JObj kvs" by blast
          define href where "href = (case dict_get kvs (str ''href'') of None \<Rightarrow> JNull | Some v \<Rightarrow> v)"
          have pg: "py_get j (str ''href'') JNull = Inr href"
            by (simp add: kvs py_get_def href_def)
          have "\<And>u. href \<noteq> JStr u" using nh
            by (auto simp: has_href_def kvs href_def split: option.splits json.splits)
          then have put: "\<And>payload w. requests_put nt href payload w = (Inl InvalidURL, w)"
            by (cases href) (auto simp: requests_put_def lift_def)
          from Some \<open>answer nt (trace w) ?rq = Some r\<close> \<open>\<not> (400 \<le> status_code r \<and> status_code r < 600)\<close> pg d put
          show ?thesis using notput
            by (simp add: upload_file_def get_upload_link_def io_bind_def send_def lift_def
              raise_for_status_def response_json_def remote_service_error_def read_file_def)
        qed
      qed
    qed
  qed
qed

theorem upload_fails_fast_without_destination_witness:
  "no_destination (answer no_href_net (trace local_file)
       (upload_link_request (str ''yd'') (str ''vk_photos/'' @ str ''a.jpg'')))
   \<and> files local_file (str ''a.jpg'') \<noteq> None
   \<and> (\<exists>e. fst (upload_file no_href_net (str ''yd'') (str ''a.jpg'') (str ''a.jpg'') local_file) = Inl e
         \<and> remote_service_error e
         \<and> trace (snd (upload_file no_href_net (str ''yd'') (str ''a.jpg'') (str ''a.jpg'') local_file))
             = trace local_file @ [upload_link_request (str ''yd'') (str ''vk_photos/'' @ str ''a.jpg'')]
         \<and> (\<forall>u d. PUT u d \<notin> set (drop (length (trace local_file))
               (trace (snd (upload_file no_href_net (str ''yd'') (str ''a.jpg'') (str ''a.jpg'')
                              local_file)))))
         \<and> files (snd (upload_file no_href_net (str ''yd'') (str ''a.jpg'') (str ''a.jpg'') local_file))
             = files local_file)"
proof -
  have h1: "no_destination (answer no_href_net (trace local_file)
       (upload_link_request (str ''yd'') (str ''vk_photos/'' @ str ''a.jpg'')))"
    by (simp add: no_destination_def no_href_net_def ok_json_def has_href_def dict_get_def str_def)
  have h2: "files local_file (str ''a.jpg'') \<noteq> None"
    by (simp add: local_file_def)
  from upload_fails_fast_without_destination
         [of no_href_net local_file "str ''yd''" "str ''a.jpg''" "str ''a.jpg''", OF h1 h2] h1 h2
  show ?thesis by blast
qed

section \<open>Fetching the photos\<close>

lemma dict_get_Nil: "dict_get [] k = None"
  by (simp add: dict_get_def)

lemma get_photos_Inl:
  "get_photos nt token user_id w = (Inl e, w') \<Longrightarrow>
     e = ConnectionError \<or> (\<exists>n. e = HTTPError n) \<or> e = JSONDecodeError \<or> e = AttributeError"
  by (auto simp: get_photos_def io_Inl dest!: py_get_Inl response_json_Inl)

text \<open>
  C7 (amended). \<open>get_photos\<close> fails exactly when the transport fails, the status is a 4xx or
  5xx, the body is not JSON, or the body or its \<open>response\<close> member is not a JSON object,
  and every failure is a RemoteServiceError: the connection error when the transport
  fails, the status error when the status is a 4xx or 5xx, the decoding error when the
  body of an answer with another status is not JSON. Otherwise it succeeds: when the body
  has no \<open>response\<close> member it returns the empty list, and when \<open>response\<close> is an object
  it returns its \<open>items\<close> member, the empty list when there is none. Its only effect is
  the one request.
\<close>

theorem get_photos_outcome:
  "((\<exists>e. fst (get_photos nt token user_id w) = Inl e)
      \<longleftrightarrow> fetch_fails (answer nt (trace w) (vk_request token user_id)))
   \<and> (\<forall>e. fst (get_photos nt token user_id w) = Inl e \<longrightarrow> remote_service_error e)
   \<and> (answer nt (trace w) (vk_request token user_id) = None
         \<longrightarrow> fst (get_photos nt token user_id w) = Inl ConnectionError)
   \<and> (\<forall>r. answer nt (trace w) (vk_request token user_id) = Some r
         \<and> 400 \<le> status_code r \<and> status_code r < 600
         \<longrightarrow> fst (get_photos nt token user_id w) = Inl (HTTPError (status_code r)))
   \<and> (\<forall>r. answer nt (trace w) (vk_request token user_id) = Some r
         \<and> \<not> (400 \<le> status_code r \<and> status_code r < 600) \<and> json_body r = None
         \<longrightarrow> fst (get_photos nt token user_id w) = Inl JSONDecodeError)
   \<and> (\<forall>r body. answer nt (trace w) (vk_request token user_id) = Some r
         \<and> \<not> (400 \<le> status_code r \<and> status_code r < 600)
         \<and> json_body r = Some (JObj body) \<and> dict_get body (str ''response'') = None
         \<longrightarrow> fst (get_photos nt token user_id w) = Inr (JArr []))
   \<and> (\<forall>r body resp. answer nt (trace w) (vk_request token user_id) = Some r
         \<and> \<not> (400 \<le> status_code r \<and> status_code r < 600)
         \<and> json_body r = Some (JObj body) \<and> dict_get body (str ''response'') = Some (JObj resp)
         \<longrightarrow> fst (get_photos nt token user_id w)
               = Inr (case dict_get resp (str ''items'') of None \<Rightarrow> JArr [] | Some v \<Rightarrow> v))
   \<and> trace (snd (get_photos nt token user_id w)) = trace w @ [vk_request token user_id]"
proof -
  have cls: "\<forall>e. fst (get_photos nt token user_id w) = Inl e \<longrightarrow> remote_service_error e"
  proof (intro allI impI)
    fix e assume "fst (get_photos nt token user_id w) = Inl e"
    then obtain w' where "get_photos nt token user_id w = (Inl e, w')"
      by (cases "get_photos nt token user_id w") auto
    from get_photos_Inl [OF this] show "remote_service_error e"
      by (auto simp: remote_service_error_def)
  qed
  have rest: "((\<exists>e. fst (get_photos nt token user_id w) = Inl e)
      \<longleftrightarrow> fetch_fails (answer nt (trace w) (vk_request token user_id)))
   \<and> (answer nt (trace w) (vk_request token user_id) = None
         \<longrightarrow> fst (get_photos nt token user_id w) = Inl ConnectionError)
   \<and> (\<forall>r. answer nt (trace w) (vk_request token user_id) = Some r
         \<and> 400 \<le> status_code r \<and> status_code r < 600
         \<longrightarrow> fst (get_photos nt token user_id w) = Inl (HTTPError (status_code r)))
   \<and> (\<forall>r. answer nt (trace w) (vk_request token user_id) = Some r
         \<and> \<not> (400 \<le> status_code r \<and> status_code r < 600) \<and> json_body r = None
         \<longrightarrow> fst (get_photos nt token user_id w) = Inl JSONDecodeError)
   \<and> (\<forall>r body. answer nt (trace w) (vk_request token user_id) = Some r
         \<and> \<not> (400 \<le> status_code r \<and> status_code r < 600)
         \<and> json_body r = Some (JObj body) \<and> dict_get body (str ''response'') = None
         \<longrightarrow> fst (get_photos nt token user_id w) = Inr (JArr []))
   \<and> (\<forall>r body resp. answer nt (trace w) (vk_request token user_id) = Some r
         \<and> \<not> (400 \<le> status_code r \<and> status_code r < 600)
         \<and> json_body r = Some (JObj body) \<and> dict_get body (str ''response'') = Some (JObj resp)
         \<longrightarrow> fst (get_photos nt token user_id w)
               = Inr (case dict_get resp (str ''items'') of None \<Rightarrow> JArr [] | Some v \<Rightarrow> v))
   \<and> trace (snd (get_photos nt token user_id w)) = trace w @ [vk_request token user_id]"
    by (auto simp: get_photos_def io_bind_def send_def lift_def raise_for_status_def
        response_json_def py_get_def fetch_fails_def dict_get_Nil
        split: option.splits json.splits sum.splits prod.splits)
  from cls rest show ?thesis by blast
qed

theorem get_photos_outcome_witness:
  "answer down_net (trace empty_world) (vk_request (str ''t'') (str ''1'')) = None
   \<and> fst (get_photos down_net (str ''t'') (str ''1'') empty_world) = Inl ConnectionError
   \<and> remote_service_error ConnectionError
   \<and> fst (get_photos unavailable_net (str ''t'') (str ''1'') empty_world) = Inl (HTTPError 503)
   \<and> remote_service_error (HTTPError 503)
   \<and> fetch_fails (answer empty_body_net (trace empty_world) (vk_request (str ''t'') (str ''1'')))
   \<and> fst (get_photos empty_body_net (str ''t'') (str ''1'') empty_world) = Inl JSONDecodeError
   \<and> remote_service_error JSONDecodeError
   \<and> \<not> fetch_fails (answer no_href_net (trace empty_world) (vk_request (str ''t'') (str ''1'')))
   \<and> fst (get_photos no_href_net (str ''t'') (str ''1'') empty_world) = Inr (JArr [])
   \<and> fst (get_photos (services one_item always_201) (str ''t'') (str ''1'') empty_world)
       = Inr (JArr one_item)"
proof -
  note t0 = get_photos_outcome [of down_net "str ''t''" "str ''1''" empty_world]
  note t1 = get_photos_outcome [of empty_body_net "str ''t''" "str ''1''" empty_world]
  note t2 = get_photos_outcome [of no_href_net "str ''t''" "str ''1''" empty_world]
  note t3 = get_photos_outcome [of "services one_item always_201" "str ''t''" "str ''1''" empty_world]
  note t4 = get_photos_outcome [of unavailable_net "str ''t''" "str ''1''" empty_world]
  have d: "answer down_net (trace empty_world) (vk_request (str ''t'') (str ''1'')) = None"
    by (simp add: down_net_def)
  from t0 d have e0: "fst (get_photos down_net (str ''t'') (str ''1'') empty_world) = Inl ConnectionError"
    by blast
  with t0 have c0: "remote_service_error ConnectionError" by metis
  have u: "answer unavailable_net (trace empty_world) (vk_request (str ''t'') (str ''1''))
             = Some \<lparr>status_code = 503, content = [], json_body = None\<rparr>"
    "400 \<le> status_code \<lparr>status_code = 503, content = [], json_body = None\<rparr>
       \<and> status_code \<lparr>status_code = 503, content = [], json_body = None\<rparr> < 600"
    by (simp_all add: unavailable_net_def)
  from t4 u have "fst (get_photos unavailable_net (str ''t'') (str ''1'') empty_world)
      = Inl (HTTPError (status_code \<lparr>status_code = 503, content = [], json_body = None\<rparr>))"
    by blast
  then have e4: "fst (get_photos unavailable_net (str ''t'') (str ''1'') empty_world) = Inl (HTTPError 503)"
    by simp
  with t4 have c4: "remote_service_error (HTTPError 503)" by metis
  have a: "fetch_fails (answer empty_body_net (trace empty_world) (vk_request (str ''t'') (str ''1'')))"
    by (simp add: fetch_fails_def empty_body_net_def)
  have a': "answer empty_body_net (trace empty_world) (vk_request (str ''t'') (str ''1''))
             = Some \<lparr>status_code = 200, content = [], json_body = None\<rparr>"
    "\<not> (400 \<le> status_code \<lparr>status_code = 200, content = [], json_body = None\<rparr>
        \<and> status_code \<lparr>status_code = 200, content = [], json_body = None\<rparr> < 600)"
    "json_body \<lparr>status_code = 200, content = [], json_body = None\<rparr> = None"
    by (simp_all add: empty_body_net_def)
  from t1 a' have e1: "fst (get_photos empty_body_net (str ''t'') (str ''1'') empty_world) = Inl JSONDecodeError"
    by blast
  with t1 have c1: "remote_service_error JSONDecodeError" by metis
  have b: "answer no_href_net (trace empty_world) (vk_request (str ''t'') (str ''1''))
             = Some (ok_json (JObj [(str ''error'', JStr (str ''DiskPathError''))]))"
    "\<not> (400 \<le> status_code (ok_json (JObj [(str ''error'', JStr (str ''DiskPathError''))]))
        \<and> status_code (ok_json (JObj [(str ''error'', JStr (str ''DiskPathError''))])) < 600)"
    "json_body (ok_json (JObj [(str ''error'', JStr (str ''DiskPathError''))]))
       = Some (JObj [(str ''error'', JStr (str ''DiskPathError''))])"
    "dict_get [(str ''error'', JStr (str ''DiskPathError''))] (str ''response'') = None"
    by (simp_all add: no_href_net_def ok_json_def dict_get_def str_def)
  have c: "answer (services one_item always_201) (trace empty_world) (vk_request (str ''t'') (str ''1''))
             = Some (ok_json (JObj [(str ''response'', JObj [(str ''items'', JArr one_item)])]))"
    "\<not> (400 \<le> status_code (ok_json (JObj [(str ''response'', JObj [(str ''items'', JArr one_item)])]))
        \<and> status_code (ok_json (JObj [(str ''response'', JObj [(str ''items'', JArr one_item)])])) < 600)"
    "json_body (ok_json (JObj [(str ''response'', JObj [(str ''items'', JArr one_item)])]))
       = Some (JObj [(str ''response'', JObj [(str ''items'', JArr one_item)])])"
    "dict_get [(str ''response'', JObj [(str ''items'', JArr one_item)])] (str ''response'')
       = Some (JObj [(str ''items'', JArr one_item)])"
    "dict_get [(str ''items'', JArr one_item)] (str ''items'') = Some (JArr one_item)"
    by (simp_all add: services_def services_answer_def vk_request_def ok_json_def dict_get_def)
  have nf: "\<not> fetch_fails (answer no_href_net (trace empty_world) (vk_request (str ''t'') (str ''1'')))"
    using b by (simp add: fetch_fails_def)
  from t2 b have e2: "fst (get_photos no_href_net (str ''t'') (str ''1'') empty_world) = Inr (JArr [])"
    by blast
  from t3 c have e3: "fst (get_photos (services one_item always_201) (str ''t'') (str ''1'') empty_world)
       = Inr (case dict_get [(str ''items'', JArr one_item)] (str ''items'') of
                None \<Rightarrow> JArr [] | Some v \<Rightarrow> v)"
    by blast
  from d e0 c0 e4 c4 a e1 c1 nf e2 e3 c(5) show ?thesis by simp
qed

text \<open>
  C7 as stated fails: a 200 answer whose body is empty is a success status with no photo
  list present, and \<open>get_photos\<close> raises instead of returning the empty list.
\<close>

theorem get_photos_empty_body_counterexample:
  "\<not> (400 \<le> status_code (the (answer empty_body_net [] (vk_request (str ''t'') (str ''1''))))
       \<and> status_code (the (answer empty_body_net [] (vk_request (str ''t'') (str ''1'')))) < 600)
   \<and> json_body (the (answer empty_body_net [] (vk_request (str ''t'') (str ''1'')))) = None
   \<and> fst (get_photos empty_body_net (str ''t'') (str ''1'') empty_world) = Inl JSONDecodeError"
  by (simp add: get_photos_def io_bind_def send_def lift_def raise_for_status_def
      response_json_def empty_body_net_def empty_world_def)
section \<open>The maximum of no variants\<close>

lemma backup_Inl_MaxEmpty:
  "fst (backup nt yt photos w) = Inl MaxEmptySequence \<longleftrightarrow> (\<exists>q \<in> set photos. sizes q = [])"
proof
  assume "fst (backup nt yt photos w) = Inl MaxEmptySequence"
  then obtain w' where b: "backup nt yt photos w = (Inl MaxEmptySequence, w')"
    by (cases "backup nt yt photos w") auto
  show "\<exists>q \<in> set photos. sizes q = []"
  proof (rule ccontr)
    assume "\<not> (\<exists>q \<in> set photos. sizes q = [])"
    then have ne: "\<forall>q \<in> set photos. sizes q \<noteq> []" by simp
    then have tp: "top_photos photos = Inr (take 5 (sort_desc max_resolution photos))"
      by (rule top_photos_Inr)
    have "set (take 5 (sort_desc max_resolution photos)) \<subseteq> set photos"
      by (metis set_take_subset set_mset_mset mset_sort_desc)
    with ne have ne5: "\<forall>q \<in> set (take 5 (sort_desc max_resolution photos)). sizes q \<noteq> []"
      by auto
    from b tp obtain w2 where
      "download_loop nt yt (take 5 (sort_desc max_resolution photos)) [] w
         = (Inl MaxEmptySequence, w2)"
      by (auto simp: backup_def io_bind_Inl_iff lift_iff download_and_upload_photos_def
          save_photos_info_def write_file_iff)
    from download_loop_Inl [OF this ne5] show False by simp
  qed
next
  assume "\<exists>q \<in> set photos. sizes q = []"
  from photos_with_sizes_Inl [OF this] have "top_photos photos = Inl MaxEmptySequence"
    by (simp add: top_photos_def)
  then show "fst (backup nt yt photos w) = Inl MaxEmptySequence"
    by (simp add: backup_def io_bind_def lift_def)
qed

text \<open>
  C10. \<open>get_max_size_photo\<close> of a record without size variants fails with the ValueError
  of \<open>max\<close> on an empty sequence, and of a record with a variant it returns one. Once the
  photos are fetched, \<open>run\<close> ends with that error exactly when one of the fetched records
  has no size variant. So when every fetched record has at least one variant, no
  application of \<open>get_max_size_photo\<close> in \<open>run\<close> fails: neither to a fetched record in
  the ranking nor to a selected record in the loop, the selected records being fetched
  ones.
\<close>

theorem max_of_empty_only_without_variants:
  "(sizes p = [] \<longrightarrow> get_max_size_photo p = Inl MaxEmptySequence)
   \<and> (sizes p \<noteq> [] \<longrightarrow> (\<exists>v. get_max_size_photo p = Inr v))
   \<and> (vk user_id w = (Inr photos, w1) \<longrightarrow>
        (fst (run vk nt yandex_token user_id w) = Inl MaxEmptySequence
           \<longleftrightarrow> (\<exists>q \<in> set photos. sizes q = [])))
   \<and> ((\<forall>q \<in> set photos. sizes q \<noteq> []) \<longrightarrow>
        (\<exists>selected. top_photos photos = Inr selected \<and> set selected \<subseteq> set photos)
        \<and> (\<forall>w. fst (backup nt yandex_token photos w) \<noteq> Inl MaxEmptySequence))"
proof (intro conjI impI)
  assume "sizes p = []"
  then show "get_max_size_photo p = Inl MaxEmptySequence"
    by (simp add: get_max_size_photo_def py_max_def)
next
  assume "sizes p \<noteq> []"
  from get_max_size_photo_Inr [OF this] show "\<exists>v. get_max_size_photo p = Inr v" by blast
next
  assume "vk user_id w = (Inr photos, w1)"
  then have "run vk nt yandex_token user_id w = backup nt yandex_token photos w1"
    by (simp add: run_def io_bind_def)
  then show "fst (run vk nt yandex_token user_id w) = Inl MaxEmptySequence
           \<longleftrightarrow> (\<exists>q \<in> set photos. sizes q = [])"
    by (simp add: backup_Inl_MaxEmpty)
next
  assume ne: "\<forall>q \<in> set photos. sizes q \<noteq> []"
  have "set (take 5 (sort_desc max_resolution photos)) \<subseteq> set photos"
    by (metis set_take_subset set_mset_mset mset_sort_desc)
  with top_photos_Inr [OF ne]
  show "\<exists>selected. top_photos photos = Inr selected \<and> set selected \<subseteq> set photos"
    by blast
next
  assume ne: "\<forall>q \<in> set photos. sizes q \<noteq> []"
  then show "\<forall>w. fst (backup nt yandex_token photos w) \<noteq> Inl MaxEmptySequence"
    by (simp add: backup_Inl_MaxEmpty)
qed

lemma get_photos_services:
  "get_photos (services items ps) tok uid w
     = (Inr (JArr items), w\<lparr>trace := trace w @ [vk_request tok uid]\<rparr>)"
  by (simp add: get_photos_def io_bind_def send_def services_def services_answer_def vk_request_def
      lift_def ok_json_def raise_for_status_def response_json_def py_get_def dict_get_def str_def)

lemma vk_source_services:
  "vk_source (services items ps) tok photos uid w
     = (Inr photos, w\<lparr>trace := trace w @ [vk_request tok uid]\<rparr>)"
  by (simp add: vk_source_def io_bind_def get_photos_services io_return_def)

lemma seven_photos_sizes: "\<forall>q \<in> set seven_photos. sizes q \<noteq> []"
  by (simp add: seven_photos_def photo_of_def tied_photo_def)

theorem max_of_empty_only_without_variants_witness:
  "sizes \<lparr>sizes = [], likes_count = 0, date = 0\<rparr> = []
   \<and> get_max_size_photo \<lparr>sizes = [], likes_count = 0, date = 0\<rparr> = Inl MaxEmptySequence
   \<and> sizes tied_photo \<noteq> []
   \<and> (\<exists>v. get_max_size_photo tied_photo = Inr v)
   \<and> (\<exists>q \<in> set [tied_photo, \<lparr>sizes = [], likes_count = 0, date = 0\<rparr>]. sizes q = [])
   \<and> fst (run (vk_source (services [] always_201) (str ''vk'')
                 [tied_photo, \<lparr>sizes = [], likes_count = 0, date = 0\<rparr>])
            (services [] always_201) (str ''yd'') (str ''1'') empty_world) = Inl MaxEmptySequence
   \<and> (\<exists>photos w1. vk_source (services (map json_of_photo seven_photos) always_201) (str ''vk'')
                     seven_photos (str ''1'') empty_world = (Inr photos, w1)
         \<and> (\<forall>q \<in> set photos. sizes q \<noteq> []))
   \<and> fst (run (vk_source (services (map json_of_photo seven_photos) always_201) (str ''vk'') seven_photos)
            (services (map json_of_photo seven_photos) always_201) (str ''yd'') (str ''1'') empty_world)
       \<noteq> Inl MaxEmptySequence
   \<and> (\<exists>selected. top_photos seven_photos = Inr selected \<and> set selected \<subseteq> set seven_photos)"
proof -
  note t = max_of_empty_only_without_variants
  have a0: "sizes \<lparr>sizes = [], likes_count = 0, date = 0\<rparr> = []" by simp
  have a: "get_max_size_photo \<lparr>sizes = [], likes_count = 0, date = 0\<rparr> = Inl MaxEmptySequence"
    using t [of "\<lparr>sizes = [], likes_count = 0, date = 0\<rparr>"] by simp
  have b0: "sizes tied_photo \<noteq> []" by (simp add: tied_photo_def)
  have b: "\<exists>v. get_max_size_photo tied_photo = Inr v"
    using t [of tied_photo] b0 by blast
  have c0: "\<exists>q \<in> set [tied_photo, \<lparr>sizes = [], likes_count = 0, date = 0\<rparr>]. sizes q = []"
    by simp
  have c: "fst (run (vk_source (services [] always_201) (str ''vk'')
                 [tied_photo, \<lparr>sizes = [], likes_count = 0, date = 0\<rparr>])
            (services [] always_201) (str ''yd'') (str ''1'') empty_world) = Inl MaxEmptySequence"
    using t [of _ "vk_source (services [] always_201) (str ''vk'')
                 [tied_photo, \<lparr>sizes = [], likes_count = 0, date = 0\<rparr>]" "str ''1''" empty_world
               "[tied_photo, \<lparr>sizes = [], likes_count = 0, date = 0\<rparr>]" _
               "services [] always_201" "str ''yd''"] c0
    by (simp add: vk_source_services)
  have d0: "\<exists>photos w1. vk_source (services (map json_of_photo seven_photos) always_201) (str ''vk'')
                     seven_photos (str ''1'') empty_world = (Inr photos, w1)
         \<and> (\<forall>q \<in> set photos. sizes q \<noteq> [])"
    using seven_photos_sizes by (simp add: vk_source_services)
  have d: "fst (run (vk_source (services (map json_of_photo seven_photos) always_201) (str ''vk'') seven_photos)
            (services (map json_of_photo seven_photos) always_201) (str ''yd'') (str ''1'') empty_world)
       \<noteq> Inl MaxEmptySequence"
    using t [of _ "vk_source (services (map json_of_photo seven_photos) always_201) (str ''vk'') seven_photos"
               "str ''1''" empty_world seven_photos _
               "services (map json_of_photo seven_photos) always_201" "str ''yd''"] seven_photos_sizes
    by (simp add: vk_source_services)
  have e: "\<exists>selected. top_photos seven_photos = Inr selected \<and> set selected \<subseteq> set seven_photos"
    using t [of _ _ _ _ seven_photos] seven_photos_sizes by blast
  from a0 a b0 b c0 c d0 d e show ?thesis by (intro conjI)
qed
section \<open>A failed first transfer\<close>

text \<open>
  C5 on the code. One photo is fetched, and the storage service answers the first
  transfer of the photo with status 500. The program does not look at that answer: it
  transfers again, and as the second answer is 201 the run goes on to its end and writes
  the manifest, where the claim has the run abort without a manifest and without a second
  attempt.
\<close>

theorem failed_first_transfer_is_ignored:
  "answer (services one_item first_500)
     [vk_request (str ''vk'') (str ''1''), GET (str ''https://cdn.example/w'') [] [],
      upload_link_request (str ''yd'') (str ''vk_photos/42_2021-07-15.jpg'')]
     (PUT (str ''https://up.example/1'') ''JPEG'')
     = Some \<lparr>status_code = 500, content = [], json_body = None\<rparr>
   \<and> fst (run (vk_source (services one_item first_500) (str ''vk'') [photo_of 10 10 ''w'' 42 1626343200])
            (services one_item first_500) (str ''yd'') (str ''1'') empty_world) = Inr ()
   \<and> trace (snd (run (vk_source (services one_item first_500) (str ''vk'')
                        [photo_of 10 10 ''w'' 42 1626343200])
                   (services one_item first_500) (str ''yd'') (str ''1'') empty_world))
       = [vk_request (str ''vk'') (str ''1''), GET (str ''https://cdn.example/w'') [] [],
          upload_link_request (str ''yd'') (str ''vk_photos/42_2021-07-15.jpg''),
          PUT (str ''https://up.example/1'') ''JPEG'', PUT (str ''https://up.example/1'') []]
   \<and> files (snd (run (vk_source (services one_item first_500) (str ''vk'')
                        [photo_of 10 10 ''w'' 42 1626343200])
                   (services one_item first_500) (str ''yd'') (str ''1'') empty_world))
       manifest_name
       = Some (dumps 0 (JArr [entry_json \<lparr>file_name = str ''42_2021-07-15.jpg'', size_label = str ''w''\<rparr>]))"
  by (simp add: run_eval)
section \<open>Reading the manifest back\<close>

lemma hex_value_hex_digit: "d < 16 \<Longrightarrow> hex_value (hex_digit d) = Some d"
proof -
  assume "d < 16"
  then have "d = 0 \<or> d = 1 \<or> d = 2 \<or> d = 3 \<or> d = 4 \<or> d = 5 \<or> d = 6 \<or> d = 7 \<or> d = 8
      \<or> d = 9 \<or> d = 10 \<or> d = 11 \<or> d = 12 \<or> d = 13 \<or> d = 14 \<or> d = 15"
    by arith
  then show ?thesis
    by (elim disjE) (simp_all add: hex_digit_def hex_value_def)
qed

lemma horner16:
  fixes n a b x0 x1 x2 x3 :: nat
  assumes "n = x0 + 16 * a" "a = x1 + 16 * b" "b = x2 + 16 * x3"
  shows "((x3 * 16 + x2) * 16 + x1) * 16 + x0 = n"
  unfolding assms by simp

lemma hex4_value:
  fixes n :: nat
  assumes "n < 65536"
  shows "((n div 4096 mod 16 * 16 + n div 256 mod 16) * 16 + n div 16 mod 16) * 16 + n mod 16 = n"
proof -
  have a: "n div 16 div 16 = n div 256" "n div 256 div 16 = n div 4096"
    by (simp_all add: div_mult2_eq [symmetric])
  have top: "n div 4096 mod 16 = n div 4096" using assms by simp
  have e0: "n = n mod 16 + 16 * (n div 16)" by simp
  have e1: "n div 16 = n div 16 mod 16 + 16 * (n div 256)"
    using mod_mult_div_eq [of "n div 16" 16] by (simp only: a)
  have e2: "n div 256 = n div 256 mod 16 + 16 * (n div 4096)"
    using mod_mult_div_eq [of "n div 256" 16] by (simp only: a)
  show ?thesis
    unfolding top by (rule horner16 [OF e0 e1 e2])
qed

lemma decode_hex4: "n < 65536 \<Longrightarrow> decode_uXXXX (hex4 n @ rest) = Some (n, rest)"
  by (simp only: decode_uXXXX_def hex4_def append_Cons append_Nil list.case
      hex_value_hex_digit [OF mod_less_divisor [OF zero_less_numeral]] prod.case option.case
      hex4_value)

lemma scanstring_u_escape:
  "scanstring (u_escape n @ X) =
     (case decode_uXXXX (hex4 n @ X) of
        None \<Rightarrow> None
      | Some (uni, s2) \<Rightarrow>
          if is_high_surrogate uni \<and> take 2 s2 = [backslash, CHR ''u''] then
            (case decode_uXXXX (drop 2 s2) of
               None \<Rightarrow> None
             | Some (uni2, s3) \<Rightarrow>
                 if is_low_surrogate uni2
                 then cons_char (join_surrogates uni uni2) (scanstring s3)
                 else cons_char uni (scanstring s2))
          else cons_char uni (scanstring s2))"
  by (simp add: u_escape_def backslash_def dquote_def)

text \<open>What may follow the escape of a high surrogate without being joined to it.\<close>

lemma not_joined:
  assumes "take 2 X \<noteq> [backslash, CHR ''u'']
           \<or> (\<exists>u2 r. decode_uXXXX (drop 2 X) = Some (u2, r) \<and> \<not> is_low_surrogate u2)"
    and "n < 65536"
  shows "scanstring (u_escape n @ X) = cons_char n (scanstring X)"
  using assms by (auto simp: scanstring_u_escape decode_hex4)

lemma scanstring_pair:
  assumes "0x10000 \<le> c" "c < 0x110000"
  shows "scanstring (u_escape (0xD800 + (c - 0x10000) div 1024 mod 1024)
                     @ u_escape (0xDC00 + (c - 0x10000) mod 1024) @ X)
         = cons_char c (scanstring X)"
proof -
  define v where "v = c - 0x10000"
  have v: "v < 0x100000" "c = v + 0x10000" using assms by (simp_all add: v_def)
  then have d: "v div 1024 < 1024" by simp
  then have dm: "v div 1024 mod 1024 = v div 1024" by simp
  let ?hi = "0xD800 + v div 1024"
  let ?lo = "0xDC00 + v mod 1024"
  have hi: "?hi < 65536" "is_high_surrogate ?hi" using d by (simp_all add: is_high_surrogate_def)
  have lo: "?lo < 65536" "is_low_surrogate ?lo"
    using mod_less_divisor [of 1024 v] by (simp_all add: is_low_surrogate_def)
  have j: "join_surrogates ?hi ?lo = c"
    using v by (simp add: join_surrogates_def)
  have t2: "take 2 (u_escape ?lo @ X) = [backslash, CHR ''u'']"
    "drop 2 (u_escape ?lo @ X) = hex4 ?lo @ X"
    by (simp_all add: u_escape_def)
  show ?thesis
    unfolding v_def [symmetric] dm
    by (simp only: scanstring_u_escape [of ?hi] decode_hex4 [OF hi(1)] option.case prod.case
        hi(2) t2 decode_hex4 [OF lo(1)] lo(2) j simp_thms if_True)
qed


lemma scanstring_no_join:
  assumes "n < 65536" "\<not> is_high_surrogate n"
  shows "scanstring (u_escape n @ X) = cons_char n (scanstring X)"
  using assms by (simp add: scanstring_u_escape decode_hex4)

lemma scanstring_encode_char:
  assumes c: "c < 0x110000"
    and ahead: "is_high_surrogate c \<Longrightarrow>
       take 2 X \<noteq> [backslash, CHR ''u'']
       \<or> (\<exists>u2 r. decode_uXXXX (drop 2 X) = Some (u2, r) \<and> \<not> is_low_surrogate u2)"
  shows "scanstring (encode_char c @ X) = cons_char c (scanstring X)"
proof -
  consider (short) "c = 0x22 \<or> c = 0x5C \<or> c = 0x0A \<or> c = 0x0D \<or> c = 0x09 \<or> c = 0x08 \<or> c = 0x0C"
    | (printable) "0x20 \<le> c" "c \<le> 0x7E" "c \<noteq> 0x22" "c \<noteq> 0x5C"
    | (escaped) "c < 0x20 \<or> 0x7E < c" "c < 0x10000"
        "\<not> (c = 0x22 \<or> c = 0x5C \<or> c = 0x0A \<or> c = 0x0D \<or> c = 0x09 \<or> c = 0x08 \<or> c = 0x0C)"
    | (pair) "0x10000 \<le> c"
    by linarith
  then show ?thesis
  proof cases
    case short
    then show ?thesis
      by (elim disjE) (simp_all add: encode_char_def unescape_def backslash_def dquote_def)
  next
    case printable
    then have enc: "encode_char c = [char_of c]"
      by (simp add: encode_char_def)
    have ne: "char_of c \<noteq> dquote" "char_of c \<noteq> backslash"
      using printable by (simp_all add: dquote_def backslash_def char_of_eq_iff take_bit_eq_mod)
    have oc: "(of_char (char_of c) :: nat) = c" using printable by simp
    show ?thesis using printable by (simp add: enc ne oc)
  next
    case escaped
    then have enc: "encode_char c = u_escape c"
      by (auto simp: encode_char_def)
    show ?thesis
    proof (cases "is_high_surrogate c")
      case True
      from not_joined [OF ahead [OF True] escaped(2)] show ?thesis by (simp add: enc)
    next
      case False
      from scanstring_no_join [OF escaped(2) False] show ?thesis by (simp add: enc)
    qed
  next
    case pair
    then have enc: "encode_char c = u_escape (0xD800 + (c - 0x10000) div 1024 mod 1024)
           @ u_escape (0xDC00 + (c - 0x10000) mod 1024)"
      by (simp add: encode_char_def)
    from scanstring_pair [OF pair c] show ?thesis by (simp add: enc)
  qed
qed

lemma encoded_head:
  assumes c: "c < 0x110000" and nl: "\<not> is_low_surrogate c"
  shows "take 2 (encode_char c @ Y) \<noteq> [backslash, CHR ''u'']
         \<or> (\<exists>u2 r. decode_uXXXX (drop 2 (encode_char c @ Y)) = Some (u2, r) \<and> \<not> is_low_surrogate u2)"
proof -
  consider (short) "c = 0x22 \<or> c = 0x5C \<or> c = 0x0A \<or> c = 0x0D \<or> c = 0x09 \<or> c = 0x08 \<or> c = 0x0C"
    | (printable) "0x20 \<le> c" "c \<le> 0x7E" "c \<noteq> 0x22" "c \<noteq> 0x5C"
    | (escaped) "c < 0x20 \<or> 0x7E < c" "c < 0x10000"
        "\<not> (c = 0x22 \<or> c = 0x5C \<or> c = 0x0A \<or> c = 0x0D \<or> c = 0x09 \<or> c = 0x08 \<or> c = 0x0C)"
    | (pair) "0x10000 \<le> c"
    by linarith
  then show ?thesis
  proof cases
    case short
    then show ?thesis
      by (elim disjE) (simp_all add: encode_char_def backslash_def dquote_def)
  next
    case printable
    then have enc: "encode_char c = [char_of c]"
      by (simp add: encode_char_def)
    have "char_of c \<noteq> backslash"
      using printable by (simp add: backslash_def char_of_eq_iff take_bit_eq_mod)
    then show ?thesis by (simp add: enc)
  next
    case escaped
    then have enc: "encode_char c = u_escape c"
      by (auto simp: encode_char_def)
    have "drop 2 (u_escape c @ Y) = hex4 c @ Y" by (simp add: u_escape_def)
    with decode_hex4 [OF escaped(2)] nl show ?thesis by (simp add: enc)
  next
    case pair
    then have enc: "encode_char c = u_escape (0xD800 + (c - 0x10000) div 1024 mod 1024)
           @ u_escape (0xDC00 + (c - 0x10000) mod 1024)"
      by (simp add: encode_char_def)
    let ?hi = "0xD800 + (c - 0x10000) div 1024 mod 1024"
    have hi: "?hi < 65536" "\<not> is_low_surrogate ?hi"
      using mod_less_divisor [of 1024 "(c - 0x10000) div 1024"]
      by (simp_all add: is_low_surrogate_def)
    have d: "drop 2 (encode_char c @ Y)
               = hex4 ?hi @ (u_escape (0xDC00 + (c - 0x10000) mod 1024) @ Y)"
      by (simp add: enc u_escape_def)
    have "decode_uXXXX (drop 2 (encode_char c @ Y))
            = Some (?hi, u_escape (0xDC00 + (c - 0x10000) mod 1024) @ Y)"
      unfolding d by (rule decode_hex4 [OF hi(1)])
    with hi(2) show ?thesis by blast
  qed
qed

lemma scanstring_encoded:
  assumes "list_all (\<lambda>c. c < 0x110000) s" "pair_free s"
  shows "scanstring (concat (map encode_char s) @ dquote # rest) = Some (s, rest)"
  using assms
proof (induction s)
  case Nil
  show ?case by simp
next
  case (Cons c s)
  from Cons.prems have c: "c < 0x110000" and all: "list_all (\<lambda>c. c < 0x110000) s" by simp_all
  from Cons.prems(2) have pf: "pair_free s" by (cases s) simp_all
  let ?X = "concat (map encode_char s) @ dquote # rest"
  have ahead: "take 2 ?X \<noteq> [backslash, CHR ''u'']
       \<or> (\<exists>u2 r. decode_uXXXX (drop 2 ?X) = Some (u2, r) \<and> \<not> is_low_surrogate u2)"
    if hs: "is_high_surrogate c"
  proof (cases s)
    case Nil
    then show ?thesis by (simp add: dquote_def backslash_def)
  next
    case (Cons b s')
    with Cons.prems(2) hs have "\<not> is_low_surrogate b" by simp
    moreover from all Cons have "b < 0x110000" by simp
    ultimately show ?thesis
      using encoded_head [of b "concat (map encode_char s') @ dquote # rest"] Cons by simp
  qed
  have "scanstring (encode_char c @ ?X) = cons_char c (scanstring ?X)"
    by (rule scanstring_encode_char [OF c ahead])
  with Cons.IH [OF all pf] show ?case by (simp add: cons_char_def)
qed

lemma scanstring_basestring:
  "plain_text s \<Longrightarrow> scanstring (tl (encode_basestring_ascii s) @ rest) = Some (s, rest)"
  using scanstring_encoded [of s rest]
  by (simp add: plain_text_def encode_basestring_ascii_def)


lemma skip_ws_indent:
  assumes "\<not> is_ws c"
  shows "skip_ws (newline_indent k @ c # X) = c # X"
proof -
  have "dropWhile is_ws (replicate (4 * k) CHR '' '' @ c # X) = dropWhile is_ws (c # X)"
    by (rule dropWhile_append2) (simp add: is_ws_def)
  with assms show ?thesis
    by (simp add: skip_ws_def newline_indent_def is_ws_def)
qed

lemma skip_ws_non_ws: "\<not> is_ws c \<Longrightarrow> skip_ws (c # X) = c # X"
  by (simp add: skip_ws_def)

lemma skip_ws_space: "skip_ws (CHR '' '' # X) = skip_ws X"
  by (simp add: skip_ws_def is_ws_def)

lemma not_ws: "\<not> is_ws dquote" "\<not> is_ws CHR ''{''" "\<not> is_ws CHR ''}''" "\<not> is_ws CHR '']''"
  "\<not> is_ws CHR '',''" "\<not> is_ws CHR '':''"
  by (simp_all add: is_ws_def dquote_def)

lemma basestring_Cons:
  "encode_basestring_ascii s = dquote # tl (encode_basestring_ascii s)"
  by (simp add: encode_basestring_ascii_def)

lemma scan_value_string:
  assumes "plain_text s"
  shows "scan_value scan (encode_basestring_ascii s @ rest) = Some (JStr s, rest)"
proof -
  have "scan_value scan (dquote # tl (encode_basestring_ascii s) @ rest) = Some (JStr s, rest)"
    by (simp add: scan_value_def scanstring_basestring [OF assms])
  then show ?thesis by (subst basestring_Cons) simp
qed

lemma plain_text_str_file_name: "plain_text (str ''file_name'')"
  by (simp add: plain_text_def str_def is_high_surrogate_def)

lemma plain_text_str_size: "plain_text (str ''size'')"
  by (simp add: plain_text_def str_def is_high_surrogate_def)

lemma dumps_entry:
  "dumps 1 (entry_json e) =
     CHR ''{'' # newline_indent 2
       @ dquote # tl (encode_basestring_ascii (str ''file_name'')) @ CHR '':'' # CHR '' ''
           # encode_basestring_ascii (file_name e)
       @ CHR '','' # newline_indent 2
       @ dquote # tl (encode_basestring_ascii (str ''size'')) @ CHR '':'' # CHR '' ''
           # encode_basestring_ascii (size_label e)
       @ newline_indent 1 @ ''}''"
  using basestring_Cons [of "str ''file_name''"] basestring_Cons [of "str ''size''"]
  by (simp add: entry_json_def numeral_2_eq_2)

lemma object_member:
  assumes "plain_text key" "plain_text v" "skip_ws Y = c # X"
  shows "object_items (scan_value scan) (Suc k)
           (dquote # tl (encode_basestring_ascii key) @ CHR '':'' # CHR '' ''
              # encode_basestring_ascii v @ Y) acc
         = (if c = CHR ''}'' then Some (JObj (acc @ [(key, JStr v)]), X)
            else if c = CHR '','' then
              object_items (scan_value scan) k (skip_ws X) (acc @ [(key, JStr v)])
            else None)"
proof -
  have s1: "scanstring (tl (encode_basestring_ascii key) @ CHR '':'' # CHR '' ''
              # encode_basestring_ascii v @ Y)
           = Some (key, CHR '':'' # CHR '' '' # encode_basestring_ascii v @ Y)"
    by (rule scanstring_basestring [OF assms(1)])
  have s2: "scan_value scan (skip_ws (CHR '' '' # encode_basestring_ascii v @ Y))
           = Some (JStr v, Y)"
  proof -
    have "skip_ws (CHR '' '' # encode_basestring_ascii v @ Y)
            = skip_ws (dquote # tl (encode_basestring_ascii v) @ Y)"
      by (subst basestring_Cons) (simp add: skip_ws_space)
    also have "\<dots> = dquote # tl (encode_basestring_ascii v) @ Y"
      by (rule skip_ws_non_ws [OF not_ws(1)])
    also have "\<dots> = encode_basestring_ascii v @ Y"
      by (subst (2) basestring_Cons) simp
    finally show ?thesis
      by (simp only: scan_value_string [OF assms(2)])
  qed
  show ?thesis
    by (simp add: s1 s2 skip_ws_non_ws not_ws assms(3))
qed

lemma object_member_more:
  assumes "plain_text key" "plain_text v" "skip_ws Y = CHR '','' # X"
  shows "object_items (scan_value scan) (Suc k)
           (dquote # tl (encode_basestring_ascii key) @ CHR '':'' # CHR '' ''
              # encode_basestring_ascii v @ Y) acc
         = object_items (scan_value scan) k (skip_ws X) (acc @ [(key, JStr v)])"
  by (subst object_member [OF assms]) simp

lemma object_member_last:
  assumes "plain_text key" "plain_text v" "skip_ws Y = CHR ''}'' # X"
  shows "object_items (scan_value scan) (Suc k)
           (dquote # tl (encode_basestring_ascii key) @ CHR '':'' # CHR '' ''
              # encode_basestring_ascii v @ Y) acc
         = Some (JObj (acc @ [(key, JStr v)]), X)"
  by (subst object_member [OF assms]) simp

lemma scan_entry:
  assumes "plain_entry e"
  shows "scan_value (scan_value scan) (dumps 1 (entry_json e) @ rest) = Some (entry_json e, rest)"
proof -
  let ?S = "scan_value scan"
  let ?m2 = "dquote # tl (encode_basestring_ascii (str ''size'')) @ CHR '':'' # CHR '' ''
           # encode_basestring_ascii (size_label e) @ (newline_indent 1 @ CHR ''}'' # rest)"
  let ?m1 = "dquote # tl (encode_basestring_ascii (str ''file_name'')) @ CHR '':'' # CHR '' ''
           # encode_basestring_ascii (file_name e) @ (CHR '','' # newline_indent 2 @ ?m2)"
  from assms have pf: "plain_text (file_name e)" and ps: "plain_text (size_label e)"
    by (simp_all add: plain_entry_def)
  have shape: "dumps 1 (entry_json e) @ rest = CHR ''{'' # newline_indent 2 @ ?m1"
    by (simp add: dumps_entry del: One_nat_def)
  have w1: "skip_ws (newline_indent 2 @ ?m1) = ?m1"
    by (rule skip_ws_indent [OF not_ws(1)])
  have w2: "skip_ws (newline_indent 2 @ ?m2) = ?m2"
    by (rule skip_ws_indent [OF not_ws(1)])
  have w3: "skip_ws (newline_indent 1 @ CHR ''}'' # rest) = CHR ''}'' # rest"
    by (rule skip_ws_indent [OF not_ws(3)])
  have w4: "skip_ws (CHR '','' # newline_indent 2 @ ?m2) = CHR '','' # newline_indent 2 @ ?m2"
    by (rule skip_ws_non_ws [OF not_ws(5)])
  obtain k where k: "length (newline_indent 2 @ ?m1) = Suc (Suc k)"
    by (simp add: newline_indent_def)
  have second: "object_items ?S (Suc k) ?m2 [(str ''file_name'', JStr (file_name e))]
      = Some (JObj ([(str ''file_name'', JStr (file_name e))] @ [(str ''size'', JStr (size_label e))]), rest)"
    by (rule object_member_last [OF plain_text_str_size ps w3])
  have first: "object_items ?S (Suc (Suc k)) ?m1 []
      = object_items ?S (Suc k) ?m2 [(str ''file_name'', JStr (file_name e))]"
    by (simp only: object_member_more [OF plain_text_str_file_name pf w4] w2 append_Nil)
  have "JSONObject ?S (newline_indent 2 @ ?m1)
      = object_items ?S (length (newline_indent 2 @ ?m1)) ?m1 []"
    unfolding JSONObject_def w1 by (simp add: dquote_def)
  also have "\<dots> = object_items ?S (Suc (Suc k)) ?m1 []"
    by (simp only: k)
  also note first
  also note second
  finally have "JSONObject ?S (newline_indent 2 @ ?m1)
      = Some (JObj [(str ''file_name'', JStr (file_name e)), (str ''size'', JStr (size_label e))], rest)"
    by simp
  then show ?thesis
    unfolding shape by (simp add: scan_value_def dquote_def entry_json_def)
qed

lemma length_join: "\<forall>x \<in> set xs. x \<noteq> [] \<Longrightarrow> length xs \<le> length (join sep xs)"
proof (induction sep xs rule: join.induct)
  case (1 sep)
  show ?case by simp
next
  case (2 sep x)
  then show ?case by (cases x) simp_all
next
  case (3 sep x y ys)
  then have "x \<noteq> []" by simp
  then have "1 \<le> length x" by (cases x) simp_all
  with 3 show ?case by simp
qed

lemma join_Cons: "join sep (x # xs) = (if xs = [] then x else x @ sep @ join sep xs)"
  by (cases xs) simp_all

lemma array_loop:
  assumes "list_all plain_entry es" "es \<noteq> []" "length es \<le> k"
  shows "array_items (scan_value (scan_value scan)) k
           (join (CHR '','' # newline_indent 1) (map (dumps 1) (map entry_json es))
              @ newline_indent 0 @ CHR '']'' # rest) acc
         = Some (JArr (acc @ map entry_json es), rest)"
  using assms
proof (induction es arbitrary: k acc)
  case Nil
  then show ?case by simp
next
  case (Cons e es)
  from Cons.prems obtain k' where k: "k = Suc k'" "length es \<le> k'"
    by (cases k) simp_all
  from Cons.prems have pe: "plain_entry e" and pes: "list_all plain_entry es" by simp_all
  show ?case
  proof (cases es)
    case Nil
    have w: "skip_ws (newline_indent 0 @ CHR '']'' # rest) = CHR '']'' # rest"
      by (rule skip_ws_indent [OF not_ws(4)])
    show ?thesis
      by (simp add: Nil k scan_entry [OF pe] w del: One_nat_def map_map)
  next
    case (Cons e' es')
    let ?tail = "join (CHR '','' # newline_indent 1) (map (dumps 1) (map entry_json es))
              @ newline_indent 0 @ CHR '']'' # rest"
    have tl_brace: "?tail = CHR ''{'' # tl ?tail"
      by (simp add: Cons join_Cons dumps_entry del: One_nat_def)
    have w1: "skip_ws (CHR '','' # newline_indent 1 @ ?tail) = CHR '','' # newline_indent 1 @ ?tail"
      by (rule skip_ws_non_ws [OF not_ws(5)])
    obtain T where T: "?tail = CHR ''{'' # T"
      by (rule that [OF tl_brace])
    have w2: "skip_ws (newline_indent 1 @ ?tail) = ?tail"
      unfolding T by (rule skip_ws_indent [OF not_ws(2)])
    have shape: "join (CHR '','' # newline_indent 1) (map (dumps 1) (map entry_json (e # es)))
              @ newline_indent 0 @ CHR '']'' # rest
          = dumps 1 (entry_json e) @ (CHR '','' # newline_indent 1 @ ?tail)"
      by (simp add: Cons del: One_nat_def)
    have ne: "es \<noteq> []" using Cons by simp
    show ?thesis
      unfolding shape k
      by (simp add: scan_entry [OF pe] w1 w2 Cons.IH [OF pes ne k(2)] del: One_nat_def map_map)
  qed
qed


lemma JSONArray_items:
  "skip_ws s = c # r \<Longrightarrow> c \<noteq> CHR '']'' \<Longrightarrow>
     JSONArray scan s = array_items scan (length s) (c # r) []"
  by (simp add: JSONArray_def)

lemma json_loads_manifest:
  assumes "list_all plain_entry es"
  shows "json_loads (dumps 0 (JArr (map entry_json es))) = Some (JArr (map entry_json es))"
proof (cases es)
  case Nil
  have "skip_ws '']'' = '']''" "skip_ws ''[]'' = ''[]''" "skip_ws [] = []"
    by (simp_all add: skip_ws_def is_ws_def)
  then show ?thesis
    by (simp add: Nil json_loads_def scan_value_def JSONArray_def dquote_def)
next
  case (Cons e es')
  let ?J = "join (CHR '','' # newline_indent 1) (map (dumps 1) (map entry_json es))"
  let ?T = "newline_indent 1 @ ?J @ newline_indent 0 @ CHR '']'' # []"
  have ne: "es \<noteq> []" using Cons by simp
  have shape: "dumps 0 (JArr (map entry_json es)) = CHR ''['' # ?T"
    using ne by (simp del: map_map)
  have "?J = CHR ''{'' # tl ?J"
    by (simp add: Cons join_Cons dumps_entry del: One_nat_def)
  then obtain J' where J: "?J = CHR ''{'' # J'"
    by (rule that)
  have w0: "skip_ws (CHR ''['' # ?T) = CHR ''['' # ?T"
    by (simp add: skip_ws_def is_ws_def)
  have w1: "skip_ws ?T = CHR ''{'' # (J' @ newline_indent 0 @ CHR '']'' # [])"
    unfolding J append_Cons by (rule skip_ws_indent [OF not_ws(2)])
  have eqJ: "CHR ''{'' # (J' @ newline_indent 0 @ CHR '']'' # [])
               = ?J @ newline_indent 0 @ CHR '']'' # []"
    by (simp only: J append_Cons)
  have "\<forall>x \<in> set (map (dumps 1) (map entry_json es)). x \<noteq> []"
    by (auto simp: dumps_entry simp del: One_nat_def)
  from length_join [OF this, of "CHR '','' # newline_indent 1"]
  have len: "length es \<le> length ?T" by simp
  obtain n where n: "length (CHR ''['' # ?T) = Suc (Suc n)"
    by (simp add: newline_indent_def)
  have items: "array_items (scan_once (Suc (Suc n))) (length ?T)
                 (?J @ newline_indent 0 @ CHR '']'' # []) []
               = Some (JArr ([] @ map entry_json es), [])"
    unfolding scan_once.simps by (rule array_loop [OF assms ne len])
  have "JSONArray (scan_once (Suc (Suc n))) ?T
          = array_items (scan_once (Suc (Suc n))) (length ?T)
              (CHR ''{'' # (J' @ newline_indent 0 @ CHR '']'' # [])) []"
    by (rule JSONArray_items [OF w1]) simp
  also have "\<dots> = Some (JArr ([] @ map entry_json es), [])"
    by (simp only: eqJ items)
  finally have arr: "JSONArray (scan_once (Suc (Suc n))) ?T = Some (JArr (map entry_json es), [])"
    by simp
  have "scan_once (Suc (Suc (Suc n))) (CHR ''['' # ?T) = JSONArray (scan_once (Suc (Suc n))) ?T"
    by (simp add: scan_value_def dquote_def)
  with arr have top: "scan_once (Suc (Suc (Suc n))) (CHR ''['' # ?T)
      = Some (JArr (map entry_json es), [])"
    by (simp only:)
  have e: "skip_ws [] = []" by (simp add: skip_ws_def)
  show ?thesis
    unfolding json_loads_def shape w0 n top by (simp add: e)
qed

lemma encode_lone_pair:
  "encode_basestring_ascii [0xD83D, 0xDE00] = encode_basestring_ascii [0x1F600]"
  by (simp add: encode_basestring_ascii_def encode_char_def)

lemma plain_joined:
  "list_all plain_entry [\<lparr>file_name = [0x1F600], size_label = []\<rparr>]"
  by (simp add: plain_entry_def plain_text_def)

text \<open>
  C8 as stated fails. A file name that holds a high surrogate directly followed by a low
  surrogate is written as two \<open>\uXXXX\<close> escapes, which is also how the one character
  above \<open>0xFFFF\<close> that the two encode is written; read back, the two escapes are joined
  into that one character, so the list read back differs from the list written.
\<close>

theorem surrogate_pair_round_trip_counterexample:
  "Option.bind
     (files (snd (save_photos_info [\<lparr>file_name = [0xD83D, 0xDE00], size_label = []\<rparr>]
                    manifest_name empty_world)) manifest_name)
     json_loads
   = Some (JArr [JObj [(str ''file_name'', JStr [0x1F600]), (str ''size'', JStr [])]])
   \<and> JArr [JObj [(str ''file_name'', JStr [0x1F600]), (str ''size'', JStr [])]]
       \<noteq> JArr (map entry_json [\<lparr>file_name = [0xD83D, 0xDE00], size_label = []\<rparr>])"
proof -
  have same: "dumps 0 (JArr (map entry_json [\<lparr>file_name = [0xD83D, 0xDE00], size_label = []\<rparr>]))
      = dumps 0 (JArr (map entry_json [\<lparr>file_name = [0x1F600], size_label = []\<rparr>]))"
    by (simp add: entry_json_def encode_lone_pair)
  have "json_loads (dumps 0 (JArr (map entry_json [\<lparr>file_name = [0xD83D, 0xDE00], size_label = []\<rparr>])))
      = Some (JArr (map entry_json [\<lparr>file_name = [0x1F600], size_label = []\<rparr>]))"
    unfolding same by (rule json_loads_manifest [OF plain_joined])
  then show ?thesis
    by (simp add: save_photos_info_def write_file_def entry_json_def)
qed

text \<open>
  C8 (amended). For every list of manifest entries whose file names and size labels are
  sequences of code points below \<open>0x110000\<close> in which no high surrogate is directly
  followed by a low surrogate (every string of Unicode text is one), \<open>save_photos_info\<close>
  writes the file, and parsing the text of the file yields the JSON list of the entries
  written: the same entries, in the same order, each with the same file name and the same
  size label.
\<close>

theorem manifest_round_trip:
  assumes "list_all plain_entry photos_info"
  shows "\<exists>text. files (snd (save_photos_info photos_info name w)) name = Some text
           \<and> json_loads text = Some (JArr (map entry_json photos_info))"
  using json_loads_manifest [OF assms]
  by (simp add: save_photos_info_def write_file_def)


theorem manifest_round_trip_witness:
  "list_all plain_entry
     [\<lparr>file_name = str ''42_2021-07-15.jpg'', size_label = str ''w''\<rparr>,
      \<lparr>file_name = [0x22, 0x5C, 0x0A, 0x444, 0x1F600, 0xDE00, 0xD83D], size_label = []\<rparr>]
   \<and> (\<exists>text. files (snd (save_photos_info
                     [\<lparr>file_name = str ''42_2021-07-15.jpg'', size_label = str ''w''\<rparr>,
                      \<lparr>file_name = [0x22, 0x5C, 0x0A, 0x444, 0x1F600, 0xDE00, 0xD83D], size_label = []\<rparr>]
                     manifest_name empty_world)) manifest_name = Some text
           \<and> json_loads text
               = Some (JArr (map entry_json
                    [\<lparr>file_name = str ''42_2021-07-15.jpg'', size_label = str ''w''\<rparr>,
                     \<lparr>file_name = [0x22, 0x5C, 0x0A, 0x444, 0x1F600, 0xDE00, 0xD83D],
                       size_label = []\<rparr>])))"
proof -
  have h: "list_all plain_entry
     [\<lparr>file_name = str ''42_2021-07-15.jpg'', size_label = str ''w''\<rparr>,
      \<lparr>file_name = [0x22, 0x5C, 0x0A, 0x444, 0x1F600, 0xDE00, 0xD83D], size_label = []\<rparr>]"
    by (simp add: plain_entry_def plain_text_def str_def is_high_surrogate_def is_low_surrogate_def)
  from manifest_round_trip [OF h] h show ?thesis by blast
qed
end
